theory Spec2Isabelle
  imports Main "HOL-Library.Word"
begin

section \<open>Single-instance coordination of putty\_view (CmdLineHandler.cpp)\<close>

text \<open>
  The development embeds \<^verbatim>\<open>src/putty_view/CmdLineHandler.cpp\<close>: the constructor
  that derives the per-user resource names, \<^verbatim>\<open>toBeLeader\<close>, \<^verbatim>\<open>leaderTimerCallback\<close>,
  \<^verbatim>\<open>sendMsgToLeader\<close> and \<^verbatim>\<open>handleCmd\<close>.  The Win32 objects the code shares between
  processes (a named file mapping and a named mutex) are an explicit store; every
  call of the code that touches them is one atomic operation on that store and appends
  one event to a global trace.
\<close>

subsection \<open>Constants and data\<close>

type_synonym pid = nat
type_synonym byte = "8 word"

text \<open>Lines 14 and 15.\<close>

definition SHARED_MEM_NAME :: string where
  "SHARED_MEM_NAME = ''PuttySharedMem''"

definition SHARED_MEM_MUTEX_NAME :: string where
  "SHARED_MEM_MUTEX_NAME = ''PuttySharedMemMutex''"

text \<open>
  \<^verbatim>\<open>CmdLineHandler.h\<close> is not among the sources.  The constants it declares and the
  source uses are taken as parameters: the size of the shared region and the sizes of
  the two name buffers (the \<^verbatim>\<open>sizeof\<close> arguments of lines 33 and 34).
\<close>

record header =
  SHARED_MEM_SIZE :: nat
  sizeof_userShareMemName :: nat
  sizeof_userShareMemMutexName :: nat

datatype SharedType = SHARED_TYPE_LEADER | SHARED_TYPE_FOLLOWER

subsection \<open>The constructor's string handling (lines 20 to 34)\<close>

definition NUL :: char where
  "NUL = CHR 0x00"

text \<open>
  \<^verbatim>\<open>char\<close> is a signed byte for the compiler the code is written for; the comparisons of
  lines 27 to 29 are on these values.
\<close>

definition char_val :: "char \<Rightarrow> int" where
  "char_val c = (let n = (of_char c :: nat) in if n < 128 then int n else int n - 256)"

definition is_alnum :: "char \<Rightarrow> bool" where
  "is_alnum c \<longleftrightarrow>
     (char_val c \<ge> char_val CHR ''0'' \<and> char_val c \<le> char_val CHR ''9'')
   \<or> (char_val c \<ge> char_val CHR ''a'' \<and> char_val c \<le> char_val CHR ''z'')
   \<or> (char_val c \<ge> char_val CHR ''A'' \<and> char_val c \<le> char_val CHR ''Z'')"

text \<open>
  \<^verbatim>\<open>GetUserNameExA(NameSamCompatible, userId, &userIdLength)\<close> on the zeroed 128-byte
  buffer of line 20.  The argument is what the operating system has for the account
  (\<open>None\<close>: the lookup fails).  On success the buffer holds the name and its terminator
  and the length is the number of characters without the terminator; a name that does
  not fit with its terminator makes the call fail.
\<close>

definition GetUserNameExA :: "string option \<Rightarrow> (string \<times> nat) option" where
  "GetUserNameExA account =
     (case account of
        None \<Rightarrow> None
      | Some nm \<Rightarrow>
          if length nm < 128
          then Some (nm @ replicate (128 - length nm) NUL, length nm)
          else None)"

text \<open>The loop of lines 26 to 32.\<close>

function sanitize_loop :: "nat \<Rightarrow> nat \<Rightarrow> string \<Rightarrow> string" where
  "sanitize_loop i userIdLength userId =
     (if i < userIdLength then
        (if is_alnum (userId ! i)
         then sanitize_loop (i + 1) userIdLength userId
         else sanitize_loop (i + 1) userIdLength (userId[i := CHR ''_'']))
      else userId)"
  by pat_completeness auto
termination
  by (relation "measure (\<lambda>(i, n, b). n - i)") auto

declare sanitize_loop.simps [simp del]

text \<open>What \<^verbatim>\<open>%s\<close> reads from a buffer: the characters before the first terminator.\<close>

definition c_str :: "string \<Rightarrow> string" where
  "c_str buf = takeWhile (\<lambda>c. c \<noteq> NUL) buf"

text \<open>
  \<^verbatim>\<open>_snprintf(buf, count, "%s_%s", a, b)\<close>: at most \<open>count\<close> characters are stored.
  The result is terminated inside the buffer only when the formatted text is shorter
  than \<open>count\<close>; the theorems about the names carry that condition.
\<close>

definition snprintf_s_s :: "nat \<Rightarrow> string \<Rightarrow> string \<Rightarrow> string" where
  "snprintf_s_s count a b = take count (a @ ''_'' @ b)"

text \<open>Lines 26 to 34: from the buffer and length of a successful lookup to the two names.\<close>

definition derive_names :: "header \<Rightarrow> string \<times> nat \<Rightarrow> string \<times> string" where
  "derive_names hdr r =
     (case r of (userId, userIdLength) \<Rightarrow>
        let userId' = sanitize_loop 0 userIdLength userId in
          (snprintf_s_s (sizeof_userShareMemName hdr) SHARED_MEM_NAME (c_str userId'),
           snprintf_s_s (sizeof_userShareMemMutexName hdr) SHARED_MEM_MUTEX_NAME (c_str userId')))"

subsection \<open>The shared store: named kernel objects, processes, trace\<close>

datatype wait_result = WAIT_OBJECT_0 | WAIT_ABANDONED | WAIT_TIMEOUT | WAIT_FAILED

text \<open>The two time-outs the code passes to \<^verbatim>\<open>WaitForSingleObject\<close>: 0 and \<^verbatim>\<open>INFINITE\<close>.\<close>

datatype timeout = NoWait | INFINITE

datatype last_error = ERROR_SUCCESS | ERROR_ALREADY_EXISTS | ERROR_OTHER

text \<open>
  A named mutex: its owner, the owner's recursion count, whether an owner terminated
  without releasing it, and the processes that hold a handle to it.  A named file
  mapping: its bytes by offset and the processes that hold a handle to it.  An object
  exists as long as some process holds a handle.
\<close>

record mutex =
  owner :: "pid option"
  recursion :: nat
  abandoned :: bool
  mholders :: "pid set"

record region =
  bytes :: "nat \<Rightarrow> byte"
  rholders :: "pid set"

text \<open>One event per call the code makes; the trace is the instrumentation of the code.\<close>

datatype event =
    E_ErrorExit
  | E_CreateMutex string
  | E_CreateFileMapping string last_error
  | E_fatalbox
  | E_MapViewOfFile bool
  | E_CloseHandle
  | E_memset nat
  | E_timer_Start
  | E_read byte
  | E_write byte
  | E_WaitForSingleObject timeout wait_result
  | E_ReleaseMutex
  | E_createNewSession
  | E_FindWindowA bool
  | E_bringToForeground
  | E_exit int

text \<open>
  Control points of a process, named by the source line of the next shared access.
  \<open>L107\<close> is the leader between two timer ticks: its next step is the read of line 107.
\<close>

datatype pc =
    NotStarted
  | L73 | L86 | L97
  | L107 | L112 | L113 | L114 | L115
  | L124 | L130 | L135 | L136 | L62
  | Exited int | ErrorExited | Killed

text \<open>
  The members of the \<^verbatim>\<open>CmdLineHandler\<close> object that the code under \<^verbatim>\<open>src/\<close> reads and writes,
  with the control point of the process that owns it.  \<open>sharedType\<close> is not initialised
  by the constructor: \<open>None\<close> is that state.  \<open>sharedBuffer\<close> is the pointer of line 86
  (\<open>False\<close>: \<^verbatim>\<open>NULL\<close>); it points at offset 0 of the region named \<open>userShareMemName\<close>.
  The members' names are the source's without the trailing underscore.
\<close>

record process =
  pc :: pc
  userShareMemName :: string
  userShareMemMutexName :: string
  sharedType :: "SharedType option"
  sharedBuffer :: bool
  checkMemTimer :: bool

record world =
  regions :: "string \<Rightarrow> region option"
  mutexes :: "string \<Rightarrow> mutex option"
  procs :: "pid \<Rightarrow> process"
  trace :: "(pid \<times> event) list"

text \<open>
  What the environment answers where the store does not decide it: the account name
  (\<open>None\<close>: the lookup fails), whether \<^verbatim>\<open>CreateFileMapping\<close> and \<^verbatim>\<open>MapViewOfFile\<close> succeed, and
  whether \<^verbatim>\<open>FindWindowA("PuTTY-ND2_ConfigBox", NULL)\<close> finds a window.
\<close>

record environment =
  account :: "string option"
  create_ok :: bool
  map_ok :: bool
  window :: bool

definition process0 :: process where
  "process0 = \<lparr>pc = NotStarted, userShareMemName = [], userShareMemMutexName = [],
     sharedType = None, sharedBuffer = False, checkMemTimer = False\<rparr>"

definition world0 :: world where
  "world0 = \<lparr>regions = (\<lambda>n. None), mutexes = (\<lambda>n. None), procs = (\<lambda>p. process0), trace = []\<rparr>"

definition emit :: "pid \<Rightarrow> event \<Rightarrow> world \<Rightarrow> world" where
  "emit p e w = w\<lparr>trace := trace w @ [(p, e)]\<rparr>"

definition set_pc :: "pid \<Rightarrow> pc \<Rightarrow> world \<Rightarrow> world" where
  "set_pc p c w = w\<lparr>procs := (procs w)(p := (procs w p)\<lparr>pc := c\<rparr>)\<rparr>"

definition shm :: "world \<Rightarrow> pid \<Rightarrow> string" where
  "shm w p = userShareMemName (procs w p)"

definition mtx :: "world \<Rightarrow> pid \<Rightarrow> string" where
  "mtx w p = userShareMemMutexName (procs w p)"

subsection \<open>The operating system's part\<close>

text \<open>
  Each kernel object has its own small state machine on \<open>mutex option\<close> or
  \<open>region option\<close> (\<open>None\<close>: no object of that name); the calls below apply it to the object
  of the given name.
\<close>

definition upd_mutex :: "string \<Rightarrow> (mutex option \<Rightarrow> mutex option) \<Rightarrow> world \<Rightarrow> world" where
  "upd_mutex n f w = w\<lparr>mutexes := (mutexes w)(n := f (mutexes w n))\<rparr>"

definition upd_region :: "string \<Rightarrow> (region option \<Rightarrow> region option) \<Rightarrow> world \<Rightarrow> world" where
  "upd_region n f w = w\<lparr>regions := (regions w)(n := f (regions w n))\<rparr>"

text \<open>
  \<^verbatim>\<open>CreateMutex(NULL, FALSE, name)\<close> (line 36): opens the mutex of that name, creating it
  unowned when there is none.  The source does not test the handle; the model takes
  the call to succeed.
\<close>

definition mutex_open :: "pid \<Rightarrow> mutex option \<Rightarrow> mutex option" where
  "mutex_open p mo =
     Some (case mo of
             None \<Rightarrow> \<lparr>owner = None, recursion = 0, abandoned = False, mholders = {p}\<rparr>
           | Some m \<Rightarrow> m\<lparr>mholders := insert p (mholders m)\<rparr>)"

definition CreateMutex :: "pid \<Rightarrow> string \<Rightarrow> world \<Rightarrow> world" where
  "CreateMutex p name w = emit p (E_CreateMutex name) (upd_mutex name (mutex_open p) w)"

text \<open>
  \<^verbatim>\<open>CreateFileMapping\<close> on the paging file (lines 73 to 78), with the \<^verbatim>\<open>GetLastError()\<close> that
  line 84 reads after it: a handle (\<open>False\<close>: \<^verbatim>\<open>NULL\<close>), the last error, the new store.
  A region that did not exist is created zero-filled; an existing one is opened and
  the last error is \<^verbatim>\<open>ERROR_ALREADY_EXISTS\<close>.
\<close>

definition region_open :: "pid \<Rightarrow> region option \<Rightarrow> region option" where
  "region_open p ro =
     Some (case ro of
             None \<Rightarrow> \<lparr>bytes = (\<lambda>i. 0), rholders = {p}\<rparr>
           | Some r \<Rightarrow> r\<lparr>rholders := insert p (rholders r)\<rparr>)"

definition CreateFileMapping ::
  "pid \<Rightarrow> bool \<Rightarrow> string \<Rightarrow> world \<Rightarrow> bool \<times> last_error \<times> world" where
  "CreateFileMapping p granted name w =
     (if \<not> granted then (False, ERROR_OTHER, emit p (E_CreateFileMapping name ERROR_OTHER) w)
      else
        let err = (case regions w name of None \<Rightarrow> ERROR_SUCCESS
                   | Some r \<Rightarrow> ERROR_ALREADY_EXISTS)
        in (True, err, emit p (E_CreateFileMapping name err) (upd_region name (region_open p) w)))"

definition MapViewOfFile :: "pid \<Rightarrow> bool \<Rightarrow> world \<Rightarrow> bool \<times> world" where
  "MapViewOfFile p granted w = (granted, emit p (E_MapViewOfFile granted) w)"

text \<open>
  \<^verbatim>\<open>WaitForSingleObject\<close> on a mutex.  An unowned mutex is acquired, with \<^verbatim>\<open>WAIT_ABANDONED\<close>
  when its last owner terminated holding it; the owner acquires it again; against
  another owner a zero wait times out and an infinite wait does not return (\<open>None\<close>).
  A handle to nothing makes the wait fail.
\<close>

definition mutex_wait ::
  "pid \<Rightarrow> timeout \<Rightarrow> mutex option \<Rightarrow> (wait_result \<times> mutex option) option" where
  "mutex_wait p t mo =
     (case mo of
        None \<Rightarrow> Some (WAIT_FAILED, None)
      | Some m \<Rightarrow>
          (case owner m of
             None \<Rightarrow>
               Some (if abandoned m then WAIT_ABANDONED else WAIT_OBJECT_0,
                     Some (m\<lparr>owner := Some p, recursion := 1, abandoned := False\<rparr>))
           | Some q \<Rightarrow>
               if q = p then Some (WAIT_OBJECT_0, Some (m\<lparr>recursion := recursion m + 1\<rparr>))
               else (case t of
                       NoWait \<Rightarrow> Some (WAIT_TIMEOUT, Some m)
                     | INFINITE \<Rightarrow> None)))"

definition WaitForSingleObject ::
  "pid \<Rightarrow> timeout \<Rightarrow> world \<Rightarrow> (wait_result \<times> world) option" where
  "WaitForSingleObject p t w =
     (case mutex_wait p t (mutexes w (mtx w p)) of
        None \<Rightarrow> None
      | Some (r, mo) \<Rightarrow>
          Some (r, emit p (E_WaitForSingleObject t r) (upd_mutex (mtx w p) (\<lambda>x. mo) w)))"

text \<open>\<^verbatim>\<open>ReleaseMutex\<close>: only the owner's call has an effect.\<close>

definition mutex_release :: "pid \<Rightarrow> mutex option \<Rightarrow> mutex option" where
  "mutex_release p mo =
     (case mo of
        None \<Rightarrow> None
      | Some m \<Rightarrow>
          if owner m = Some p then
            Some (if recursion m \<le> 1 then m\<lparr>owner := None, recursion := 0\<rparr>
                  else m\<lparr>recursion := recursion m - 1\<rparr>)
          else Some m)"

definition ReleaseMutex :: "pid \<Rightarrow> world \<Rightarrow> world" where
  "ReleaseMutex p w = emit p E_ReleaseMutex (upd_mutex (mtx w p) (mutex_release p) w)"

text \<open>
  Closing the handles of a process: the mapping handle (\<^verbatim>\<open>CloseHandle\<close> of line 93, and
  what the operating system does when the process ends) and the mutex handle when the
  process ends.  The last handle closed destroys the object; a mutex whose owner ends
  is abandoned.
\<close>

definition region_close :: "pid \<Rightarrow> region option \<Rightarrow> region option" where
  "region_close p ro =
     (case ro of
        None \<Rightarrow> None
      | Some r \<Rightarrow>
          if p \<in> rholders r then
            (if rholders r = {p} then None else Some (r\<lparr>rholders := rholders r - {p}\<rparr>))
          else Some r)"

definition mutex_close :: "pid \<Rightarrow> mutex option \<Rightarrow> mutex option" where
  "mutex_close p mo =
     (case mo of
        None \<Rightarrow> None
      | Some m \<Rightarrow>
          if p \<in> mholders m then
            (if mholders m = {p} then None
             else Some ((if owner m = Some p
                         then m\<lparr>owner := None, recursion := 0, abandoned := True\<rparr>
                         else m)\<lparr>mholders := mholders m - {p}\<rparr>))
          else Some m)"

definition close_region :: "pid \<Rightarrow> world \<Rightarrow> world" where
  "close_region p w = upd_region (shm w p) (region_close p) w"

definition close_mutex :: "pid \<Rightarrow> world \<Rightarrow> world" where
  "close_mutex p w = upd_mutex (mtx w p) (mutex_close p) w"

definition process_rundown :: "pid \<Rightarrow> world \<Rightarrow> world" where
  "process_rundown p w = close_mutex p (close_region p w)"

text \<open>\<^verbatim>\<open>exit(code)\<close>: the process ends with that status and its handles are closed.\<close>

definition exit_process :: "pid \<Rightarrow> int \<Rightarrow> world \<Rightarrow> world" where
  "exit_process p code w = set_pc p (Exited code) (process_rundown p (emit p (E_exit code) w))"

subsection \<open>The code's own accesses and helpers\<close>

definition upd_proc :: "pid \<Rightarrow> (process \<Rightarrow> process) \<Rightarrow> world \<Rightarrow> world" where
  "upd_proc p f w = w\<lparr>procs := (procs w)(p := f (procs w p))\<rparr>"

text \<open>
  \<^verbatim>\<open>*sharedBuffer_\<close> and \<^verbatim>\<open>sharedBuffer_[0] = v\<close>: byte 0 of the region the process has mapped.
  The code makes these accesses only after \<^verbatim>\<open>toBeLeader\<close> has mapped the view; lemma
  \<open>inv_run\<close> below shows that the region then exists in every reachable world, so the
  \<open>None\<close> branches are never taken there.
\<close>

definition flag_of :: "region option \<Rightarrow> byte" where
  "flag_of ro = (case ro of None \<Rightarrow> 0 | Some r \<Rightarrow> bytes r 0)"

definition sharedBuffer0 :: "pid \<Rightarrow> world \<Rightarrow> byte" where
  "sharedBuffer0 p w = flag_of (regions w (shm w p))"

definition read_sharedBuffer0 :: "pid \<Rightarrow> world \<Rightarrow> byte \<times> world" where
  "read_sharedBuffer0 p w = (sharedBuffer0 p w, emit p (E_read (sharedBuffer0 p w)) w)"

definition region_write0 :: "byte \<Rightarrow> region option \<Rightarrow> region option" where
  "region_write0 v ro = map_option (\<lambda>r. r\<lparr>bytes := (bytes r)(0 := v)\<rparr>) ro"

definition write_sharedBuffer0 :: "pid \<Rightarrow> byte \<Rightarrow> world \<Rightarrow> world" where
  "write_sharedBuffer0 p v w = emit p (E_write v) (upd_region (shm w p) (region_write0 v) w)"

text \<open>\<^verbatim>\<open>memset(sharedBuffer_, 0, n)\<close> (line 98).\<close>

definition region_memset :: "nat \<Rightarrow> region option \<Rightarrow> region option" where
  "region_memset n ro = map_option (\<lambda>r. r\<lparr>bytes := (\<lambda>i. if i < n then 0 else bytes r i)\<rparr>) ro"

definition memset_sharedBuffer :: "pid \<Rightarrow> nat \<Rightarrow> world \<Rightarrow> world" where
  "memset_sharedBuffer p n w = emit p (E_memset n) (upd_region (shm w p) (region_memset n) w)"

text \<open>
  Modelled from the spec: \<^verbatim>\<open>isLeader\<close> is declared in \<^verbatim>\<open>CmdLineHandler.h\<close>, which is not among
  the sources.  The spec's Role is the member \<open>sharedType\<close> that line 84 assigns;
  \<^verbatim>\<open>isLeader\<close> answers whether it is the leader's.
\<close>

definition isLeader :: "process \<Rightarrow> bool" where
  "isLeader P \<longleftrightarrow> sharedType P = Some SHARED_TYPE_LEADER"

text \<open>
  Modelled from the spec: \<^verbatim>\<open>ErrorExit\<close> is declared in \<^verbatim>\<open>native_putty_common.h\<close>, which is not
  among the sources.  The spec has the identity lookup fail fatally: a diagnostic and
  a non-zero exit.  No handle is open yet at line 23.
\<close>

definition ErrorExit :: "pid \<Rightarrow> world \<Rightarrow> world" where
  "ErrorExit p w = set_pc p ErrorExited (emit p E_ErrorExit w)"

definition fatalbox :: "pid \<Rightarrow> world \<Rightarrow> world" where
  "fatalbox p w = emit p E_fatalbox w"

definition CloseHandle_sharedMemHandle :: "pid \<Rightarrow> world \<Rightarrow> world" where
  "CloseHandle_sharedMemHandle p w = emit p E_CloseHandle (close_region p w)"

definition createNewSession :: "pid \<Rightarrow> world \<Rightarrow> world" where
  "createNewSession p w = emit p E_createNewSession w"

definition FindWindowA :: "pid \<Rightarrow> bool \<Rightarrow> world \<Rightarrow> bool \<times> world" where
  "FindWindowA p found w = (found, emit p (E_FindWindowA found) w)"

definition bringToForeground :: "pid \<Rightarrow> world \<Rightarrow> world" where
  "bringToForeground p w = emit p E_bringToForeground w"

definition timer_Start :: "pid \<Rightarrow> world \<Rightarrow> world" where
  "timer_Start p w = emit p E_timer_Start (upd_proc p (\<lambda>P. P\<lparr>checkMemTimer := True\<rparr>) w)"

subsection \<open>The functions of CmdLineHandler.cpp, each run without interruption\<close>

text \<open>Lines 17 to 37.  The argument is the environment's account name.\<close>

definition CmdLineHandler_ctor :: "header \<Rightarrow> pid \<Rightarrow> string option \<Rightarrow> world \<Rightarrow> world" where
  "CmdLineHandler_ctor hdr p acct w =
     (case GetUserNameExA acct of
        None \<Rightarrow> ErrorExit p w
      | Some r \<Rightarrow>
          (case derive_names hdr r of (a, b) \<Rightarrow>
             CreateMutex p b
               (upd_proc p (\<lambda>P. P\<lparr>userShareMemName := a, userShareMemMutexName := b,
                                   sharedBuffer := False\<rparr>) w)))"

text \<open>
  Lines 68 to 101.  The result is \<open>None\<close> when the process left through \<^verbatim>\<open>exit(-1)\<close>, and
  \<open>Some\<close> of the returned value otherwise.
\<close>

definition toBeLeader :: "header \<Rightarrow> pid \<Rightarrow> environment \<Rightarrow> world \<Rightarrow> bool option \<times> world" where
  "toBeLeader hdr p env w =
     (case CreateFileMapping p (create_ok env) (shm w p) w of (h, err, w1) \<Rightarrow>
        if \<not> h then (None, exit_process p (- 1) (fatalbox p w1))
        else
          let w2 = upd_proc p (\<lambda>P. P\<lparr>sharedType :=
                     Some (if err = ERROR_ALREADY_EXISTS then SHARED_TYPE_FOLLOWER
                           else SHARED_TYPE_LEADER)\<rparr>) w1
          in (case MapViewOfFile p (map_ok env) w2 of (v, w3) \<Rightarrow>
                let w4 = upd_proc p (\<lambda>P. P\<lparr>sharedBuffer := v\<rparr>) w3 in
                if \<not> v
                then (None, exit_process p (- 1) (CloseHandle_sharedMemHandle p (fatalbox p w4)))
                else
                  let w5 = (if isLeader (procs w4 p)
                            then memset_sharedBuffer p (SHARED_MEM_SIZE hdr) w4 else w4)
                  in (Some (isLeader (procs w5 p)), w5)))"

text \<open>
  Lines 105 to 117.  \<open>None\<close>: the call does not return, the infinite wait of line 112
  being against another owner.
\<close>

definition leaderTimerCallback :: "pid \<Rightarrow> world \<Rightarrow> world option" where
  "leaderTimerCallback p w =
     (case read_sharedBuffer0 p w of (v, w1) \<Rightarrow>
        if v = 0 then Some w1
        else
          (case WaitForSingleObject p INFINITE w1 of
             None \<Rightarrow> None
           | Some (r, w2) \<Rightarrow>
               Some (ReleaseMutex p (createNewSession p (write_sharedBuffer0 p 0 w2)))))"

text \<open>Lines 121 to 138.  The argument is whether \<^verbatim>\<open>FindWindowA\<close> finds the window.\<close>

definition sendMsgToLeader :: "pid \<Rightarrow> bool \<Rightarrow> world \<Rightarrow> world option" where
  "sendMsgToLeader p found w =
     (case FindWindowA p found w of (hwnd, w1) \<Rightarrow>
        if hwnd then Some (bringToForeground p w1)
        else
          (case WaitForSingleObject p NoWait w1 of
             None \<Rightarrow> None
           | Some (wait_result, w2) \<Rightarrow>
               if WAIT_OBJECT_0 \<noteq> wait_result then Some w2
               else Some (ReleaseMutex p (write_sharedBuffer0 p 1 w2))))"

text \<open>Lines 52 to 65.\<close>

definition handleCmd :: "header \<Rightarrow> pid \<Rightarrow> environment \<Rightarrow> world \<Rightarrow> world option" where
  "handleCmd hdr p env w =
     (case toBeLeader hdr p env w of (r, w1) \<Rightarrow>
        (case r of
           None \<Rightarrow> Some w1
         | Some leader \<Rightarrow>
             if leader then Some (timer_Start p w1)
             else map_option (exit_process p 0) (sendMsgToLeader p (window env) w1)))"

subsection \<open>Interleavings: one shared access of one process at a time\<close>

text \<open>
  A process starts with the constructor and goes on to \<^verbatim>\<open>handleCmd\<close>; the leader then
  runs \<^verbatim>\<open>leaderTimerCallback\<close> at every tick of its timer.  A step that cannot proceed (the
  infinite wait against another owner) and a step of a process that has ended leave
  the world as it is.
\<close>

definition step :: "header \<Rightarrow> pid \<Rightarrow> environment \<Rightarrow> world \<Rightarrow> world" where
  "step hdr p env w =
     (case pc (procs w p) of
        NotStarted \<Rightarrow>
          (let w1 = CmdLineHandler_ctor hdr p (account env) w in
           if pc (procs w1 p) = NotStarted then set_pc p L73 w1 else w1)
      | L73 \<Rightarrow>
          (case CreateFileMapping p (create_ok env) (shm w p) w of (h, err, w1) \<Rightarrow>
             if \<not> h then exit_process p (- 1) (fatalbox p w1)
             else set_pc p L86
                    (upd_proc p (\<lambda>P. P\<lparr>sharedType :=
                       Some (if err = ERROR_ALREADY_EXISTS then SHARED_TYPE_FOLLOWER
                             else SHARED_TYPE_LEADER)\<rparr>) w1))
      | L86 \<Rightarrow>
          (case MapViewOfFile p (map_ok env) w of (v, w1) \<Rightarrow>
             let w2 = upd_proc p (\<lambda>P. P\<lparr>sharedBuffer := v\<rparr>) w1 in
             if \<not> v then exit_process p (- 1) (CloseHandle_sharedMemHandle p (fatalbox p w2))
             else set_pc p L97 w2)
      | L97 \<Rightarrow>
          (if isLeader (procs w p)
           then set_pc p L107 (timer_Start p (memset_sharedBuffer p (SHARED_MEM_SIZE hdr) w))
           else set_pc p L124 w)
      | L107 \<Rightarrow>
          (case read_sharedBuffer0 p w of (v, w1) \<Rightarrow>
             if v = 0 then w1 else set_pc p L112 w1)
      | L112 \<Rightarrow>
          (case WaitForSingleObject p INFINITE w of
             None \<Rightarrow> w
           | Some (r, w1) \<Rightarrow> set_pc p L113 w1)
      | L113 \<Rightarrow> set_pc p L114 (write_sharedBuffer0 p 0 w)
      | L114 \<Rightarrow> set_pc p L115 (createNewSession p w)
      | L115 \<Rightarrow> set_pc p L107 (ReleaseMutex p w)
      | L124 \<Rightarrow>
          (case FindWindowA p (window env) w of (hwnd, w1) \<Rightarrow>
             if hwnd then set_pc p L62 (bringToForeground p w1) else set_pc p L130 w1)
      | L130 \<Rightarrow>
          (case WaitForSingleObject p NoWait w of
             None \<Rightarrow> w
           | Some (wait_result, w1) \<Rightarrow>
               if WAIT_OBJECT_0 \<noteq> wait_result then set_pc p L62 w1 else set_pc p L135 w1)
      | L135 \<Rightarrow> set_pc p L136 (write_sharedBuffer0 p 1 w)
      | L136 \<Rightarrow> set_pc p L62 (ReleaseMutex p w)
      | L62 \<Rightarrow> exit_process p 0 w
      | Exited c \<Rightarrow> w
      | ErrorExited \<Rightarrow> w
      | Killed \<Rightarrow> w)"

text \<open>A process has started and has not ended.\<close>

definition live :: "pc \<Rightarrow> bool" where
  "live c \<longleftrightarrow> (case c of NotStarted \<Rightarrow> False | Exited x \<Rightarrow> False | ErrorExited \<Rightarrow> False
                 | Killed \<Rightarrow> False | _ \<Rightarrow> True)"

text \<open>
  A process can end at any point, by the user closing the leader or by being killed;
  the operating system then closes its handles.
\<close>

definition kill :: "pid \<Rightarrow> world \<Rightarrow> world" where
  "kill p w = (if live (pc (procs w p)) then set_pc p Killed (process_rundown p w) else w)"

datatype action = Step pid environment | Kill pid

definition exec :: "header \<Rightarrow> action \<Rightarrow> world \<Rightarrow> world" where
  "exec hdr a w = (case a of Step p env \<Rightarrow> step hdr p env w | Kill p \<Rightarrow> kill p w)"

primrec run :: "header \<Rightarrow> action list \<Rightarrow> world \<Rightarrow> world" where
  "run hdr [] w = w"
| "run hdr (a # as) w = run hdr as (exec hdr a w)"

subsection \<open>The spec's vocabulary for the names\<close>

text \<open>
  The characters the spec calls alphanumeric, the replacement of every other character
  by an underscore, and the pattern \<^verbatim>\<open>[A-Za-z0-9_]+\<close>, written from the spec's words; the
  theorems compare them with the loop of lines 26 to 32.
\<close>

definition alnum_chars :: string where
  "alnum_chars = ''0123456789abcdefghijklmnopqrstuvwxyzABCDEFGHIJKLMNOPQRSTUVWXYZ''"

definition sanitize_char :: "char \<Rightarrow> char" where
  "sanitize_char c = (if c \<in> set alnum_chars then c else CHR ''_'')"

definition matches_ident :: "string \<Rightarrow> bool" where
  "matches_ident s \<longleftrightarrow> s \<noteq> [] \<and> list_all (\<lambda>c. c \<in> set alnum_chars \<or> c = CHR ''_'') s"

text \<open>
  Values for the header's constants, used where a theorem is evaluated on a concrete
  run.  Nothing proved in general depends on them.
\<close>

definition hdr0 :: header where
  "hdr0 = \<lparr>SHARED_MEM_SIZE = 512, sizeof_userShareMemName = 128,
            sizeof_userShareMemMutexName = 128\<rparr>"

subsection \<open>Vocabulary of the invariants\<close>

text \<open>
  Which control points hold a handle to the region (from the successful
  \<^verbatim>\<open>CreateFileMapping\<close> on), which lie between an acquisition of the mutex and its
  release, and which belong to the leader's and to the follower's code.
\<close>

definition has_region :: "pc \<Rightarrow> bool" where
  "has_region c \<longleftrightarrow> c \<in> {L86, L97, L107, L112, L113, L114, L115, L124, L130, L135, L136, L62}"

definition locked :: "pc \<Rightarrow> bool" where
  "locked c \<longleftrightarrow> c \<in> {L113, L114, L115, L135, L136}"

definition leader_pc :: "pc \<Rightarrow> bool" where
  "leader_pc c \<longleftrightarrow> c \<in> {L107, L112, L113, L114, L115}"

definition follower_pc :: "pc \<Rightarrow> bool" where
  "follower_pc c \<longleftrightarrow> c \<in> {L124, L130, L135, L136, L62}"

definition holds_mutex :: "pid \<Rightarrow> mutex option \<Rightarrow> bool" where
  "holds_mutex p mo \<longleftrightarrow> (case mo of None \<Rightarrow> False | Some m \<Rightarrow> p \<in> mholders m)"

definition owns :: "pid \<Rightarrow> mutex option \<Rightarrow> bool" where
  "owns p mo \<longleftrightarrow> (case mo of None \<Rightarrow> False | Some m \<Rightarrow> owner m = Some p)"

definition holds_region :: "pid \<Rightarrow> region option \<Rightarrow> bool" where
  "holds_region p ro \<longleftrightarrow> (case ro of None \<Rightarrow> False | Some r \<Rightarrow> p \<in> rholders r)"

text \<open>
  The invariant of the reachable worlds: a live process holds a handle to its mutex and,
  past line 73, to its region; among the processes holding a region of one name at
  most one is the leader; a process between acquisition and release owns its mutex;
  the leader's and the follower's code run in their roles, and no role is assigned
  before line 84; the leader between its read of line 107 and its write of line 113
  still sees a non-zero flag; and line 98 has run only in a leader past line 97.
\<close>

definition inv_handles :: "world \<Rightarrow> bool" where
  "inv_handles w \<longleftrightarrow>
     (\<forall>p. (live (pc (procs w p)) \<longrightarrow> holds_mutex p (mutexes w (mtx w p)))
        \<and> (has_region (pc (procs w p)) \<longrightarrow> holds_region p (regions w (shm w p))))"

definition role_ok :: "pc \<Rightarrow> SharedType option \<Rightarrow> bool" where
  "role_ok c t \<longleftrightarrow>
     (leader_pc c \<longrightarrow> t = Some SHARED_TYPE_LEADER)
   \<and> (follower_pc c \<longrightarrow> t = Some SHARED_TYPE_FOLLOWER)
   \<and> (c = L86 \<or> c = L97 \<longrightarrow> t \<noteq> None)
   \<and> (c = NotStarted \<or> c = L73 \<longrightarrow> t = None)"

definition inv_role :: "world \<Rightarrow> bool" where
  "inv_role w \<longleftrightarrow> (\<forall>p. role_ok (pc (procs w p)) (sharedType (procs w p)))"

definition inv_leader :: "world \<Rightarrow> bool" where
  "inv_leader w \<longleftrightarrow>
     (\<forall>p q. has_region (pc (procs w p)) \<and> has_region (pc (procs w q))
         \<and> isLeader (procs w p) \<and> isLeader (procs w q) \<and> shm w p = shm w q \<longrightarrow> p = q)"

definition inv_lock :: "world \<Rightarrow> bool" where
  "inv_lock w \<longleftrightarrow> (\<forall>p. locked (pc (procs w p)) \<longrightarrow> owns p (mutexes w (mtx w p)))"

definition inv_flag :: "world \<Rightarrow> bool" where
  "inv_flag w \<longleftrightarrow> (\<forall>p. pc (procs w p) \<in> {L112, L113} \<longrightarrow> sharedBuffer0 p w \<noteq> 0)"

definition inv :: "world \<Rightarrow> bool" where
  "inv w \<longleftrightarrow> inv_handles w \<and> inv_role w \<and> inv_leader w \<and> inv_lock w \<and> inv_flag w"

text \<open>
  Under a region name a leader has been elected: some process has been given the
  leader's role by line 84 with that name.  Every region that exists, and every role
  assigned, goes back to such an election.
\<close>

definition elected :: "world \<Rightarrow> string \<Rightarrow> bool" where
  "elected w n \<longleftrightarrow> (\<exists>p. isLeader (procs w p) \<and> shm w p = n)"

definition inv_elect :: "world \<Rightarrow> bool" where
  "inv_elect w \<longleftrightarrow>
     (\<forall>n. regions w n \<noteq> None \<longrightarrow> elected w n)
   \<and> (\<forall>p. sharedType (procs w p) \<noteq> None \<longrightarrow> elected w (shm w p))"

text \<open>The events of one process, and the calls of line 98 among them.\<close>

definition events_of :: "pid \<Rightarrow> world \<Rightarrow> event list" where
  "events_of p w = map snd (filter (\<lambda>x. fst x = p) (trace w))"

definition is_memset :: "event \<Rightarrow> bool" where
  "is_memset e \<longleftrightarrow> (case e of E_memset n \<Rightarrow> True | _ \<Rightarrow> False)"

definition memsets :: "pid \<Rightarrow> world \<Rightarrow> event list" where
  "memsets p w = filter is_memset (events_of p w)"

definition inv_once :: "world \<Rightarrow> bool" where
  "inv_once w \<longleftrightarrow>
     (\<forall>p. length (memsets p w) \<le> 1
        \<and> (memsets p w \<noteq> [] \<longrightarrow>
             isLeader (procs w p) \<and> pc (procs w p) \<notin> {NotStarted, L73, L86, L97}))"

definition inv_all :: "world \<Rightarrow> bool" where
  "inv_all w \<longleftrightarrow> inv w \<and> inv_elect w \<and> inv_once w"

subsection \<open>Drivers for the statements about several calls\<close>

text \<open>
  Followers that run \<^verbatim>\<open>sendMsgToLeader\<close> one after the other, none of them finding the
  window, and the number of calls of \<^verbatim>\<open>createNewSession\<close> in a trace.
\<close>

fun notify_all :: "pid list \<Rightarrow> world \<Rightarrow> world option" where
  "notify_all [] w = Some w"
| "notify_all (f # fs) w =
     (case sendMsgToLeader f False w of None \<Rightarrow> None | Some w' \<Rightarrow> notify_all fs w')"

definition callbacks :: "world \<Rightarrow> nat" where
  "callbacks w = length (filter (\<lambda>x. snd x = E_createNewSession) (trace w))"

text \<open>
  A concrete run used to evaluate the theorems: the account \<open>u\<close>, every call granted, no
  window found.  In \<open>race_sched\<close> process 0 creates the region, process 1 opens it and
  runs to its release of the mutex while process 0 has not yet reached line 97; process
  0 then maps its view.
\<close>

definition env_u :: environment where
  "env_u = \<lparr>account = Some ''u'', create_ok = True, map_ok = True, window = False\<rparr>"

definition race_sched :: "action list" where
  "race_sched =
     [Step 0 env_u, Step 1 env_u, Step 0 env_u,
      Step 1 env_u, Step 1 env_u, Step 1 env_u, Step 1 env_u, Step 1 env_u, Step 1 env_u,
      Step 1 env_u, Step 0 env_u]"

text \<open>
  In \<open>elect_sched\<close> three processes start and process 1 is the first to reach line 73.
  In \<open>contend_sched\<close> process 0 creates the region, process 1 runs up to line 135 and
  holds the mutex, and process 2 is about to call \<^verbatim>\<open>sendMsgToLeader\<close>; \<open>abandon_sched\<close> is the
  same with process 1 killed while it holds the mutex.  In \<open>signal_sched\<close> process 0
  becomes the leader and waits for its timer and process 1 has set the flag and
  released the mutex.  In \<open>notify_sched\<close> process 0 is the leader waiting for its timer
  and processes 1 and 2 are about to call \<^verbatim>\<open>sendMsgToLeader\<close>.
\<close>

definition elect_sched :: "action list" where
  "elect_sched =
     [Step 0 env_u, Step 1 env_u, Step 2 env_u, Step 1 env_u, Step 0 env_u, Step 2 env_u]"

definition contend_sched :: "action list" where
  "contend_sched =
     [Step 0 env_u, Step 0 env_u] @ replicate 6 (Step 1 env_u) @ replicate 4 (Step 2 env_u)"

definition abandon_sched :: "action list" where
  "abandon_sched =
     [Step 0 env_u, Step 0 env_u] @ replicate 6 (Step 1 env_u) @ [Kill 1]
       @ replicate 4 (Step 2 env_u)"

definition signal_sched :: "action list" where
  "signal_sched = replicate 4 (Step 0 env_u) @ replicate 8 (Step 1 env_u)"

definition notify_sched :: "action list" where
  "notify_sched =
     replicate 4 (Step 0 env_u) @ replicate 4 (Step 1 env_u) @ replicate 4 (Step 2 env_u)"

text \<open>The number of writes of line 135 in a trace, and the process an action belongs to.\<close>

definition flag_writes :: "world \<Rightarrow> nat" where
  "flag_writes w = length (filter (\<lambda>x. snd x = E_write 1) (trace w))"

definition actor :: "action \<Rightarrow> pid" where
  "actor a = (case a of Step p env \<Rightarrow> p | Kill p \<Rightarrow> p)"

text \<open>
  The second part of C3 as the spec words it, for the comparison with the code: in
  every interleaving the flag of a region goes from non-zero to 0 only by a step of a
  leader that owns its mutex.
\<close>

definition cleared_only_under_lock :: "header \<Rightarrow> bool" where
  "cleared_only_under_lock hdr \<longleftrightarrow>
     (\<forall>sched a n.
        flag_of (regions (run hdr sched world0) n) \<noteq> 0
      \<and> regions (exec hdr a (run hdr sched world0)) n \<noteq> None
      \<and> flag_of (regions (exec hdr a (run hdr sched world0)) n) = 0
      \<longrightarrow> (\<exists>p env. a = Step p env \<and> isLeader (procs (run hdr sched world0) p)
             \<and> owns p (mutexes (run hdr sched world0) (mtx (run hdr sched world0) p))))"

section \<open>Properties\<close>

subsection \<open>The derived identity and the resource names\<close>

lemma is_alnum_iff: "is_alnum c \<longleftrightarrow> c \<in> set alnum_chars"
  by (cases c) (simp add: is_alnum_def char_val_def alnum_chars_def Let_def)

lemma sanitize_char_not_NUL: "sanitize_char c \<noteq> NUL"
  by (auto simp: sanitize_char_def NUL_def alnum_chars_def)

lemma length_sanitize_loop: "length (sanitize_loop i n buf) = length buf"
  by (induction i n buf rule: sanitize_loop.induct) (subst sanitize_loop.simps, simp)

lemma nth_sanitize_loop:
  "n \<le> length buf \<Longrightarrow> k < length buf \<Longrightarrow>
   sanitize_loop i n buf ! k = (if i \<le> k \<and> k < n then sanitize_char (buf ! k) else buf ! k)"
proof (induction i n buf rule: sanitize_loop.induct)
  case (1 i n buf)
  show ?case
  proof (cases "i < n")
    case False
    then show ?thesis by (subst sanitize_loop.simps) auto
  next
    case True
    show ?thesis
    proof (cases "is_alnum (buf ! i)")
      case alnum: True
      have "sanitize_loop i n buf = sanitize_loop (i + 1) n buf"
        using True alnum by (subst sanitize_loop.simps) simp
      moreover have "sanitize_char (buf ! i) = buf ! i"
        using alnum by (simp add: sanitize_char_def is_alnum_iff)
      ultimately show ?thesis
        using "1.IH"(1) [OF True alnum "1.prems"] True
        by (cases "k = i") auto
    next
      case other: False
      have "sanitize_loop i n buf = sanitize_loop (i + 1) n (buf[i := CHR ''_''])"
        using True other by (subst sanitize_loop.simps) simp
      moreover have "sanitize_char (buf ! i) = CHR ''_''"
        using other by (simp add: sanitize_char_def is_alnum_iff)
      ultimately show ?thesis
        using "1.IH"(2) [OF True other] "1.prems" True
        by (cases "k = i") auto
    qed
  qed
qed

lemma sanitize_loop_buffer:
  "sanitize_loop 0 (length nm) (nm @ replicate k NUL) = map sanitize_char nm @ replicate k NUL"
  by (rule nth_equalityI) (auto simp: length_sanitize_loop nth_sanitize_loop nth_append)

lemma takeWhile_sanitized:
  "takeWhile (\<lambda>c. c \<noteq> NUL) (map sanitize_char nm @ NUL # ys) = map sanitize_char nm"
  by (induction nm) (simp_all add: sanitize_char_not_NUL)

lemma c_str_sanitized:
  "0 < k \<Longrightarrow> c_str (sanitize_loop 0 (length nm) (nm @ replicate k NUL)) = map sanitize_char nm"
  unfolding sanitize_loop_buffer c_str_def
  by (cases k) (simp_all add: takeWhile_sanitized)

lemma matches_ident_sanitized: "nm \<noteq> [] \<Longrightarrow> matches_ident (map sanitize_char nm)"
  by (auto simp: matches_ident_def list_all_iff sanitize_char_def)

lemma derive_names_eq:
  assumes "length nm < 128"
  shows "derive_names hdr (nm @ replicate (128 - length nm) NUL, length nm) =
    (take (sizeof_userShareMemName hdr) (SHARED_MEM_NAME @ ''_'' @ map sanitize_char nm),
     take (sizeof_userShareMemMutexName hdr)
       (SHARED_MEM_MUTEX_NAME @ ''_'' @ map sanitize_char nm))"
  using assms by (simp add: derive_names_def c_str_sanitized snprintf_s_s_def)

lemma ctor_names:
  assumes "length nm < 128"
  shows "shm (CmdLineHandler_ctor hdr p (Some nm) w) p =
           take (sizeof_userShareMemName hdr) (SHARED_MEM_NAME @ ''_'' @ map sanitize_char nm)"
    and "mtx (CmdLineHandler_ctor hdr p (Some nm) w) p =
           take (sizeof_userShareMemMutexName hdr)
             (SHARED_MEM_MUTEX_NAME @ ''_'' @ map sanitize_char nm)"
  using assms
  by (simp_all add: CmdLineHandler_ctor_def GetUserNameExA_def derive_names_eq shm_def mtx_def
      CreateMutex_def emit_def upd_proc_def upd_mutex_def)

text \<open>
  C9.  For an account name \<open>nm\<close> that the lookup of line 22 returns (not empty, shorter
  than the 128-byte buffer) and whose formatted names fit their buffers, the identity
  the constructor derives is \<open>nm\<close> with every character outside \<^verbatim>\<open>[A-Za-z0-9]\<close> replaced by
  an underscore; it matches \<^verbatim>\<open>[A-Za-z0-9_]+\<close>; the region name is
  \<^verbatim>\<open>PuttySharedMem\<close>, an underscore and the identity, the mutex name is
  \<^verbatim>\<open>PuttySharedMemMutex\<close>, an underscore and the identity; the two prefixes differ; and any
  process constructed for the same account name has the same two names.
\<close>

theorem C9_resource_names:
  assumes "nm \<noteq> []" and "length nm < 128"
    and "length (SHARED_MEM_NAME @ ''_'' @ nm) < sizeof_userShareMemName hdr"
    and "length (SHARED_MEM_MUTEX_NAME @ ''_'' @ nm) < sizeof_userShareMemMutexName hdr"
  shows "\<exists>ident. ident = map sanitize_char nm \<and> matches_ident ident
     \<and> shm (CmdLineHandler_ctor hdr p (Some nm) w) p = SHARED_MEM_NAME @ ''_'' @ ident
     \<and> mtx (CmdLineHandler_ctor hdr p (Some nm) w) p = SHARED_MEM_MUTEX_NAME @ ''_'' @ ident
     \<and> SHARED_MEM_NAME \<noteq> SHARED_MEM_MUTEX_NAME
     \<and> (\<forall>q w'. shm (CmdLineHandler_ctor hdr q (Some nm) w') q
                 = shm (CmdLineHandler_ctor hdr p (Some nm) w) p
              \<and> mtx (CmdLineHandler_ctor hdr q (Some nm) w') q
                 = mtx (CmdLineHandler_ctor hdr p (Some nm) w) p)"
  using assms
  by (simp add: ctor_names matches_ident_sanitized SHARED_MEM_NAME_def SHARED_MEM_MUTEX_NAME_def)

theorem C9_resource_names_witness:
  "shm (CmdLineHandler_ctor hdr0 0 (Some ''PC.joe'') world0) 0 = ''PuttySharedMem_PC_joe''
   \<and> mtx (CmdLineHandler_ctor hdr0 0 (Some ''PC.joe'') world0) 0 = ''PuttySharedMemMutex_PC_joe''
   \<and> matches_ident ''PC_joe''"
  using C9_resource_names [of "''PC.joe''" hdr0 0 world0]
  by (simp add: hdr0_def SHARED_MEM_NAME_def SHARED_MEM_MUTEX_NAME_def sanitize_char_def
      alnum_chars_def)

subsection \<open>What each operation changes\<close>

lemma emit_proj [simp]:
  "regions (emit p e w) = regions w" "mutexes (emit p e w) = mutexes w"
  "procs (emit p e w) = procs w" "trace (emit p e w) = trace w @ [(p, e)]"
  by (simp_all add: emit_def)

lemma upd_proc_proj [simp]:
  "regions (upd_proc p f w) = regions w" "mutexes (upd_proc p f w) = mutexes w"
  "trace (upd_proc p f w) = trace w"
  "procs (upd_proc p f w) = (procs w)(p := f (procs w p))"
  by (simp_all add: upd_proc_def)

lemma set_pc_proj [simp]:
  "regions (set_pc p c w) = regions w" "mutexes (set_pc p c w) = mutexes w"
  "trace (set_pc p c w) = trace w"
  by (simp_all add: set_pc_def)

lemma procs_set_pc:
  "procs (set_pc p c w) = (procs w)(p := (procs w p)\<lparr>pc := c\<rparr>)"
  by (simp add: set_pc_def)

lemma fields_set_pc [simp]:
  "pc (procs (set_pc p c w) q) = (if q = p then c else pc (procs w q))"
  "sharedType (procs (set_pc p c w) q) = sharedType (procs w q)"
  "sharedBuffer (procs (set_pc p c w) q) = sharedBuffer (procs w q)"
  "checkMemTimer (procs (set_pc p c w) q) = checkMemTimer (procs w q)"
  "isLeader (procs (set_pc p c w) q) = isLeader (procs w q)"
  by (simp_all add: set_pc_def isLeader_def)

lemma upd_mutex_proj [simp]:
  "regions (upd_mutex n f w) = regions w" "procs (upd_mutex n f w) = procs w"
  "trace (upd_mutex n f w) = trace w"
  "mutexes (upd_mutex n f w) = (mutexes w)(n := f (mutexes w n))"
  by (simp_all add: upd_mutex_def)

lemma upd_region_proj [simp]:
  "mutexes (upd_region n f w) = mutexes w" "procs (upd_region n f w) = procs w"
  "trace (upd_region n f w) = trace w"
  "regions (upd_region n f w) = (regions w)(n := f (regions w n))"
  by (simp_all add: upd_region_def)

lemma names_cong: "procs w' = procs w \<Longrightarrow> shm w' = shm w \<and> mtx w' = mtx w"
  by (auto simp: shm_def mtx_def fun_eq_iff)

lemma names_emit [simp]: "shm (emit p e w) = shm w" "mtx (emit p e w) = mtx w"
  by (simp_all add: shm_def mtx_def fun_eq_iff)

lemma names_upd_mutex [simp]: "shm (upd_mutex n f w) = shm w" "mtx (upd_mutex n f w) = mtx w"
  by (simp_all add: shm_def mtx_def fun_eq_iff)

lemma names_upd_region [simp]: "shm (upd_region n f w) = shm w" "mtx (upd_region n f w) = mtx w"
  by (simp_all add: shm_def mtx_def fun_eq_iff)

lemma names_set_pc [simp]: "shm (set_pc p c w) = shm w" "mtx (set_pc p c w) = mtx w"
  by (simp_all add: shm_def mtx_def fun_eq_iff set_pc_def)

lemma sharedBuffer0_cong:
  "regions w' (shm w p) = regions w (shm w p) \<Longrightarrow> shm w' = shm w \<Longrightarrow>
   sharedBuffer0 p w' = sharedBuffer0 p w"
  by (simp add: sharedBuffer0_def)

subsection \<open>The objects' state machines\<close>

lemma holds_mutex_open [simp]: "holds_mutex q (mutex_open p mo) \<longleftrightarrow> q = p \<or> holds_mutex q mo"
  by (auto simp: holds_mutex_def mutex_open_def split: option.splits)

lemma holds_mutex_wait:
  "mutex_wait p t mo = Some (r, mo') \<Longrightarrow> holds_mutex q mo' = holds_mutex q mo"
  by (auto simp: holds_mutex_def mutex_wait_def split: option.splits if_splits timeout.splits)

lemma holds_mutex_release [simp]: "holds_mutex q (mutex_release p mo) = holds_mutex q mo"
  by (auto simp: holds_mutex_def mutex_release_def split: option.splits)

lemma holds_mutex_close [simp]:
  "holds_mutex q (mutex_close p mo) \<longleftrightarrow> q \<noteq> p \<and> holds_mutex q mo"
  by (auto simp: holds_mutex_def mutex_close_def split: option.splits)

lemma owns_open [simp]: "owns q (mutex_open p mo) = owns q mo"
  by (auto simp: owns_def mutex_open_def split: option.splits)

lemma owns_wait:
  "mutex_wait p t mo = Some (r, mo') \<Longrightarrow>
   owns q mo' \<longleftrightarrow> (if q = p then r = WAIT_OBJECT_0 \<or> r = WAIT_ABANDONED else owns q mo)"
  by (auto simp: owns_def mutex_wait_def split: option.splits if_splits timeout.splits)

lemma owns_release_other [simp]: "q \<noteq> p \<Longrightarrow> owns q (mutex_release p mo) = owns q mo"
  by (auto simp: owns_def mutex_release_def split: option.splits)

lemma owns_close_other:
  "q \<noteq> p \<Longrightarrow> holds_mutex q mo \<Longrightarrow> owns q (mutex_close p mo) = owns q mo"
  by (auto simp: owns_def holds_mutex_def mutex_close_def split: option.splits)

lemma wait_INFINITE_acquires:
  "mutex_wait p INFINITE mo = Some (r, mo') \<Longrightarrow> holds_mutex p mo \<Longrightarrow> owns p mo'"
  by (auto simp: owns_def holds_mutex_def mutex_wait_def split: option.splits if_splits)

lemma wait_NoWait_returns: "\<exists>r mo'. mutex_wait p NoWait mo = Some (r, mo')"
  by (auto simp: mutex_wait_def split: option.splits)

lemma holds_region_open [simp]:
  "holds_region q (region_open p ro) \<longleftrightarrow> q = p \<or> holds_region q ro"
  by (auto simp: holds_region_def region_open_def split: option.splits)

lemma holds_region_close [simp]:
  "holds_region q (region_close p ro) \<longleftrightarrow> q \<noteq> p \<and> holds_region q ro"
  by (auto simp: holds_region_def region_close_def split: option.splits)

lemma holds_region_write0 [simp]: "holds_region q (region_write0 v ro) = holds_region q ro"
  by (auto simp: holds_region_def region_write0_def split: option.splits)

lemma holds_region_memset [simp]: "holds_region q (region_memset n ro) = holds_region q ro"
  by (auto simp: holds_region_def region_memset_def split: option.splits)

lemma holds_region_None [simp]: "\<not> holds_region q None"
  by (simp add: holds_region_def)

lemma holds_mutex_None [simp]: "\<not> holds_mutex q None"
  by (simp add: holds_mutex_def)

lemma flag_of_open [simp]: "flag_of (region_open p ro) = flag_of ro"
  by (auto simp: flag_of_def region_open_def split: option.splits)

lemma flag_of_close_other:
  "q \<noteq> p \<Longrightarrow> holds_region q ro \<Longrightarrow> flag_of (region_close p ro) = flag_of ro"
  by (auto simp: flag_of_def holds_region_def region_close_def split: option.splits)

lemma flag_of_write0: "flag_of (region_write0 v ro) = (if ro = None then 0 else v)"
  by (auto simp: flag_of_def region_write0_def split: option.splits)

lemma flag_of_memset: "0 < n \<Longrightarrow> flag_of (region_memset n ro) = 0"
  by (auto simp: flag_of_def region_memset_def split: option.splits)

lemmas os_defs = CreateMutex_def CreateFileMapping_def MapViewOfFile_def WaitForSingleObject_def
  ReleaseMutex_def close_region_def close_mutex_def process_rundown_def exit_process_def

lemmas code_defs = read_sharedBuffer0_def write_sharedBuffer0_def memset_sharedBuffer_def
  ErrorExit_def fatalbox_def CloseHandle_sharedMemHandle_def createNewSession_def FindWindowA_def
  bringToForeground_def timer_Start_def CmdLineHandler_ctor_def

lemma names_upd_proc:
  "shm (upd_proc p f w) q = (if q = p then userShareMemName (f (procs w p)) else shm w q)"
  "mtx (upd_proc p f w) q = (if q = p then userShareMemMutexName (f (procs w p)) else mtx w q)"
  by (simp_all add: shm_def mtx_def)

lemma names_def_raw [simp]:
  "userShareMemName (procs w p) = shm w p" "userShareMemMutexName (procs w p) = mtx w p"
  by (simp_all add: shm_def mtx_def)

lemma live_simps [simp]:
  "\<not> live NotStarted" "live L73" "live L86" "live L97" "live L107" "live L112" "live L113"
  "live L114" "live L115" "live L124" "live L130" "live L135" "live L136" "live L62"
  "\<not> live (Exited x)" "\<not> live ErrorExited" "\<not> live Killed"
  by (simp_all add: live_def)

lemma has_region_simps [simp]:
  "\<not> has_region NotStarted" "\<not> has_region L73" "has_region L86" "has_region L97"
  "has_region L107" "has_region L112" "has_region L113"
  "has_region L114" "has_region L115" "has_region L124" "has_region L130" "has_region L135"
  "has_region L136" "has_region L62"
  "\<not> has_region (Exited x)" "\<not> has_region ErrorExited" "\<not> has_region Killed"
  by (simp_all add: has_region_def)

lemma has_region_live: "has_region c \<Longrightarrow> live c"
  by (cases c) simp_all

lemma inv_handles_step:
  assumes "inv_handles w"
  shows "inv_handles (step hdr p env w)"
proof -
  have M: "\<And>q. live (pc (procs w q)) \<Longrightarrow> holds_mutex q (mutexes w (mtx w q))"
    and R: "\<And>q. has_region (pc (procs w q)) \<Longrightarrow> holds_region q (regions w (shm w q))"
    using assms by (auto simp: inv_handles_def)
  show ?thesis
    unfolding inv_handles_def
  proof (intro allI)
    fix q
    show "(live (pc (procs (step hdr p env w) q)) \<longrightarrow>
            holds_mutex q (mutexes (step hdr p env w) (mtx (step hdr p env w) q)))
        \<and> (has_region (pc (procs (step hdr p env w) q)) \<longrightarrow>
            holds_region q (regions (step hdr p env w) (shm (step hdr p env w) q)))"
      using M [of q] R [of q] M [of p] R [of p]
      by (cases "pc (procs w p)")
         (auto simp: step_def os_defs code_defs names_upd_proc Let_def holds_mutex_wait
               split: option.splits prod.splits if_splits)
  qed
qed

lemma inv_handles_kill:
  assumes "inv_handles w"
  shows "inv_handles (kill p w)"
proof -
  have M: "\<And>q. live (pc (procs w q)) \<Longrightarrow> holds_mutex q (mutexes w (mtx w q))"
    and R: "\<And>q. has_region (pc (procs w q)) \<Longrightarrow> holds_region q (regions w (shm w q))"
    using assms by (auto simp: inv_handles_def)
  show ?thesis
    unfolding inv_handles_def
  proof (intro allI)
    fix q
    show "(live (pc (procs (kill p w) q)) \<longrightarrow>
            holds_mutex q (mutexes (kill p w) (mtx (kill p w) q)))
        \<and> (has_region (pc (procs (kill p w) q)) \<longrightarrow>
            holds_region q (regions (kill p w) (shm (kill p w) q)))"
      using M [of q] R [of q]
      by (auto simp: kill_def os_defs)
  qed
qed

lemma locked_simps [simp]:
  "\<not> locked NotStarted" "\<not> locked L73" "\<not> locked L86" "\<not> locked L97"
  "\<not> locked L107" "\<not> locked L112" "locked L113"
  "locked L114" "locked L115" "\<not> locked L124" "\<not> locked L130" "locked L135"
  "locked L136" "\<not> locked L62"
  "\<not> locked (Exited x)" "\<not> locked ErrorExited" "\<not> locked Killed"
  by (simp_all add: locked_def)

lemma leader_pc_simps [simp]:
  "\<not> leader_pc NotStarted" "\<not> leader_pc L73" "\<not> leader_pc L86" "\<not> leader_pc L97"
  "leader_pc L107" "leader_pc L112" "leader_pc L113"
  "leader_pc L114" "leader_pc L115" "\<not> leader_pc L124" "\<not> leader_pc L130"
  "\<not> leader_pc L135" "\<not> leader_pc L136" "\<not> leader_pc L62"
  "\<not> leader_pc (Exited x)" "\<not> leader_pc ErrorExited" "\<not> leader_pc Killed"
  by (simp_all add: leader_pc_def)

lemma follower_pc_simps [simp]:
  "\<not> follower_pc NotStarted" "\<not> follower_pc L73" "\<not> follower_pc L86" "\<not> follower_pc L97"
  "\<not> follower_pc L107" "\<not> follower_pc L112" "\<not> follower_pc L113"
  "\<not> follower_pc L114" "\<not> follower_pc L115" "follower_pc L124" "follower_pc L130"
  "follower_pc L135" "follower_pc L136" "follower_pc L62"
  "\<not> follower_pc (Exited x)" "\<not> follower_pc ErrorExited" "\<not> follower_pc Killed"
  by (simp_all add: follower_pc_def)

lemma locked_live: "locked c \<Longrightarrow> live c"
  by (cases c) simp_all

lemma step_procs_other: "q \<noteq> p \<Longrightarrow> procs (step hdr p env w) q = procs w q"
  by (cases "pc (procs w p)")
     (auto simp: step_def os_defs code_defs Let_def procs_set_pc
        split: option.splits prod.splits)

lemma kill_procs_other: "q \<noteq> p \<Longrightarrow> procs (kill p w) q = procs w q"
  by (simp add: kill_def os_defs procs_set_pc)

lemma role_ok_simps [simp]:
  "role_ok NotStarted t \<longleftrightarrow> t = None" "role_ok L73 t \<longleftrightarrow> t = None"
  "role_ok L86 t \<longleftrightarrow> t \<noteq> None" "role_ok L97 t \<longleftrightarrow> t \<noteq> None"
  "role_ok L107 t \<longleftrightarrow> t = Some SHARED_TYPE_LEADER"
  "role_ok L112 t \<longleftrightarrow> t = Some SHARED_TYPE_LEADER"
  "role_ok L113 t \<longleftrightarrow> t = Some SHARED_TYPE_LEADER"
  "role_ok L114 t \<longleftrightarrow> t = Some SHARED_TYPE_LEADER"
  "role_ok L115 t \<longleftrightarrow> t = Some SHARED_TYPE_LEADER"
  "role_ok L124 t \<longleftrightarrow> t = Some SHARED_TYPE_FOLLOWER"
  "role_ok L130 t \<longleftrightarrow> t = Some SHARED_TYPE_FOLLOWER"
  "role_ok L135 t \<longleftrightarrow> t = Some SHARED_TYPE_FOLLOWER"
  "role_ok L136 t \<longleftrightarrow> t = Some SHARED_TYPE_FOLLOWER"
  "role_ok L62 t \<longleftrightarrow> t = Some SHARED_TYPE_FOLLOWER"
  "role_ok (Exited x) t" "role_ok ErrorExited t" "role_ok Killed t"
  by (simp_all add: role_ok_def)

lemma role_ok_step:
  assumes "role_ok (pc (procs w p)) (sharedType (procs w p))"
  shows "role_ok (pc (procs (step hdr p env w) p)) (sharedType (procs (step hdr p env w) p))"
proof (cases "pc (procs w p)")
  case L97
  with assms obtain t where "sharedType (procs w p) = Some t" by auto
  with L97 show ?thesis
    by (cases t) (simp_all add: step_def os_defs code_defs isLeader_def)
qed (use assms in \<open>auto simp: step_def os_defs code_defs Let_def
        split: option.splits prod.splits\<close>)

lemma inv_role_step:
  assumes "inv_role w"
  shows "inv_role (step hdr p env w)"
  unfolding inv_role_def
proof
  fix q
  show "role_ok (pc (procs (step hdr p env w) q)) (sharedType (procs (step hdr p env w) q))"
    using assms role_ok_step [of w p hdr env]
    by (cases "q = p") (simp_all add: step_procs_other inv_role_def)
qed

lemma inv_role_kill:
  assumes "inv_role w"
  shows "inv_role (kill p w)"
  unfolding inv_role_def
proof
  fix q
  show "role_ok (pc (procs (kill p w) q)) (sharedType (procs (kill p w) q))"
    using assms
    by (cases "q = p") (simp_all add: kill_procs_other inv_role_def, simp add: kill_def os_defs)
qed

lemma wait_INFINITE_result:
  "mutex_wait p INFINITE mo = Some (r, mo') \<Longrightarrow> holds_mutex p mo \<Longrightarrow>
   r = WAIT_OBJECT_0 \<or> r = WAIT_ABANDONED"
  by (auto simp: holds_mutex_def mutex_wait_def split: option.splits if_splits)

lemma inv_lock_step:
  assumes "inv_lock w" and "inv_handles w"
  shows "inv_lock (step hdr p env w)"
proof -
  have M: "\<And>q. live (pc (procs w q)) \<Longrightarrow> holds_mutex q (mutexes w (mtx w q))"
    using assms(2) by (auto simp: inv_handles_def)
  have L: "\<And>q. locked (pc (procs w q)) \<Longrightarrow> owns q (mutexes w (mtx w q))"
    using assms(1) by (auto simp: inv_lock_def)
  show ?thesis
    unfolding inv_lock_def
  proof (intro allI impI)
    fix q
    let ?w = "step hdr p env w"
    assume "locked (pc (procs ?w q))"
    then show "owns q (mutexes ?w (mtx ?w q))"
      using L [of q] M [of q] M [of p] locked_live [of "pc (procs w q)"]
      by (cases "pc (procs w p)")
         (auto simp: step_def os_defs code_defs names_upd_proc Let_def owns_wait owns_close_other
               dest: wait_INFINITE_result
               split: option.splits prod.splits if_splits)
  qed
qed

lemma inv_lock_kill:
  assumes "inv_lock w" and "inv_handles w"
  shows "inv_lock (kill p w)"
proof -
  have M: "\<And>q. live (pc (procs w q)) \<Longrightarrow> holds_mutex q (mutexes w (mtx w q))"
    using assms(2) by (auto simp: inv_handles_def)
  have L: "\<And>q. locked (pc (procs w q)) \<Longrightarrow> owns q (mutexes w (mtx w q))"
    using assms(1) by (auto simp: inv_lock_def)
  show ?thesis
    unfolding inv_lock_def
  proof (intro allI impI)
    fix q
    assume "locked (pc (procs (kill p w) q))"
    then show "owns q (mutexes (kill p w) (mtx (kill p w) q))"
      using L [of q] M [of q] locked_live [of "pc (procs w q)"]
      by (auto simp: kill_def os_defs owns_close_other split: if_splits)
  qed
qed

lemma step_names_other:
  "q \<noteq> p \<Longrightarrow> shm (step hdr p env w) q = shm w q \<and> mtx (step hdr p env w) q = mtx w q"
  using step_procs_other [of q p hdr env w]
  by (simp add: shm_def mtx_def del: names_def_raw)

lemma kill_names [simp]: "shm (kill p w) = shm w" "mtx (kill p w) = mtx w"
  by (simp_all add: kill_def os_defs)

lemma step_names_started:
  "pc (procs w p) \<noteq> NotStarted \<Longrightarrow>
   shm (step hdr p env w) = shm w \<and> mtx (step hdr p env w) = mtx w"
  by (cases "pc (procs w p)")
     (auto simp: step_def os_defs code_defs Let_def names_upd_proc fun_eq_iff
        split: option.splits prod.splits)

lemma step_becomes_leader:
  assumes "role_ok (pc (procs w p)) (sharedType (procs w p))"
    and "has_region (pc (procs (step hdr p env w) p))" and "isLeader (procs (step hdr p env w) p)"
  shows "(has_region (pc (procs w p)) \<and> isLeader (procs w p))
       \<or> (pc (procs w p) = L73 \<and> regions w (shm w p) = None)"
  using assms
  by (cases "pc (procs w p)")
     (auto simp: step_def os_defs code_defs Let_def isLeader_def
        split: option.splits prod.splits if_splits)

lemma inv_leader_step:
  assumes "inv_leader w" and "inv_handles w" and "inv_role w"
  shows "inv_leader (step hdr p env w)"
  unfolding inv_leader_def
proof (intro allI impI)
  fix a b
  let ?w = "step hdr p env w"
  assume H: "has_region (pc (procs ?w a)) \<and> has_region (pc (procs ?w b))
     \<and> isLeader (procs ?w a) \<and> isLeader (procs ?w b) \<and> shm ?w a = shm ?w b"
  have R: "\<And>q. has_region (pc (procs w q)) \<Longrightarrow> holds_region q (regions w (shm w q))"
    using assms(2) by (auto simp: inv_handles_def)
  have role: "role_ok (pc (procs w p)) (sharedType (procs w p))"
    using assms(3) by (simp add: inv_role_def)
  have old: "\<And>x y. has_region (pc (procs w x)) \<Longrightarrow> has_region (pc (procs w y)) \<Longrightarrow>
      isLeader (procs w x) \<Longrightarrow> isLeader (procs w y) \<Longrightarrow> shm w x = shm w y \<Longrightarrow> x = y"
    using assms(1) unfolding inv_leader_def by blast
  have started: "has_region (pc (procs ?w p)) \<Longrightarrow> shm ?w = shm w"
  proof -
    assume "has_region (pc (procs ?w p))"
    then have "pc (procs w p) \<noteq> NotStarted"
      by (auto simp: step_def code_defs os_defs Let_def split: option.splits prod.splits)
    then show ?thesis by (simp add: step_names_started)
  qed
  have key: "\<And>x. x \<noteq> p \<Longrightarrow> has_region (pc (procs ?w p)) \<Longrightarrow> isLeader (procs ?w p) \<Longrightarrow>
      has_region (pc (procs w x)) \<Longrightarrow> isLeader (procs w x) \<Longrightarrow> shm w p = shm w x \<Longrightarrow> False"
  proof -
    fix x assume x: "x \<noteq> p" "has_region (pc (procs ?w p))" "isLeader (procs ?w p)"
      "has_region (pc (procs w x))" "isLeader (procs w x)" "shm w p = shm w x"
    from step_becomes_leader [OF role x(2) x(3)] show False
    proof
      assume "has_region (pc (procs w p)) \<and> isLeader (procs w p)"
      with old [of p x] x show False by simp
    next
      assume "pc (procs w p) = L73 \<and> regions w (shm w p) = None"
      with R [OF x(4)] x(6) show False by simp
    qed
  qed
  show "a = b"
  proof (cases "a = p"; cases "b = p")
    assume "a \<noteq> p" "b \<noteq> p"
    with H old [of a b] show ?thesis
      by (simp add: step_procs_other step_names_other)
  next
    assume ab: "a = p" "b \<noteq> p"
    with H started have "shm w p = shm w b" by simp
    with key [of b] H ab show ?thesis by (simp add: step_procs_other)
  next
    assume ab: "a \<noteq> p" "b = p"
    with H started have "shm w p = shm w a" by simp
    with key [of a] H ab show ?thesis by (simp add: step_procs_other)
  qed simp
qed

lemma inv_leader_kill:
  assumes "inv_leader w"
  shows "inv_leader (kill p w)"
  unfolding inv_leader_def
proof (intro allI impI)
  fix a b
  assume H: "has_region (pc (procs (kill p w) a)) \<and> has_region (pc (procs (kill p w) b))
     \<and> isLeader (procs (kill p w) a) \<and> isLeader (procs (kill p w) b)
     \<and> shm (kill p w) a = shm (kill p w) b"
  have old: "\<And>x y. has_region (pc (procs w x)) \<Longrightarrow> has_region (pc (procs w y)) \<Longrightarrow>
      isLeader (procs w x) \<Longrightarrow> isLeader (procs w y) \<Longrightarrow> shm w x = shm w y \<Longrightarrow> x = y"
    using assms unfolding inv_leader_def by blast
  show "a = b"
  proof (cases "live (pc (procs w p))")
    case True
    then have "a \<noteq> p" "b \<noteq> p"
      using H by (auto simp: kill_def os_defs)
    with H old [of a b] show ?thesis
      by (simp add: kill_procs_other)
  next
    case False
    then have "kill p w = w" by (simp add: kill_def)
    with H old [of a b] show ?thesis by simp
  qed
qed

lemma poll_pc_has_region: "c = L112 \<or> c = L113 \<Longrightarrow> has_region c \<and> leader_pc c"
  by auto

lemma inv_flag_step:
  assumes "inv_flag w" and "inv_handles w" and "inv_role w" and "inv_leader w"
  shows "inv_flag (step hdr p env w)"
  unfolding inv_flag_def
proof (intro allI impI)
  fix q
  let ?w = "step hdr p env w"
  assume Q: "pc (procs ?w q) \<in> {L112, L113}"
  have F: "\<And>x. pc (procs w x) = L112 \<or> pc (procs w x) = L113 \<Longrightarrow> sharedBuffer0 x w \<noteq> 0"
    using assms(1) by (auto simp: inv_flag_def)
  have R: "\<And>x. has_region (pc (procs w x)) \<Longrightarrow> holds_region x (regions w (shm w x))"
    using assms(2) by (auto simp: inv_handles_def)
  have role: "\<And>x. role_ok (pc (procs w x)) (sharedType (procs w x))"
    using assms(3) by (simp add: inv_role_def)
  have uniq: "\<And>x y. has_region (pc (procs w x)) \<Longrightarrow> has_region (pc (procs w y)) \<Longrightarrow>
      isLeader (procs w x) \<Longrightarrow> isLeader (procs w y) \<Longrightarrow> shm w x = shm w y \<Longrightarrow> x = y"
    using assms(4) unfolding inv_leader_def by blast
  show "sharedBuffer0 q ?w \<noteq> 0"
  proof (cases "q = p")
    case True
    with Q F [of p] show ?thesis
      by (cases "pc (procs w p)")
         (auto simp: step_def os_defs code_defs Let_def sharedBuffer0_def
            split: option.splits prod.splits if_splits)
  next
    case False
    then have pcq: "pc (procs w q) = L112 \<or> pc (procs w q) = L113"
      using Q by (simp add: step_procs_other)
    then have hq: "has_region (pc (procs w q))" and lq: "isLeader (procs w q)"
      using role [of q] by (auto simp: isLeader_def)
    have names: "shm ?w q = shm w q"
      using False by (simp add: step_names_other)
    have differ: "has_region (pc (procs w p)) \<Longrightarrow> isLeader (procs w p) \<Longrightarrow> shm w p \<noteq> shm w q"
      using uniq [of p q] hq lq False by auto
    have "flag_of (regions ?w (shm w q)) = flag_of (regions w (shm w q))
          \<or> flag_of (regions ?w (shm w q)) = 1"
      using R [OF hq] False differ role [of p]
      by (cases "pc (procs w p)")
         (auto simp: step_def os_defs code_defs Let_def isLeader_def flag_of_close_other
            flag_of_write0 names_upd_proc
            split: option.splits prod.splits if_splits)
    with F [OF pcq] names show ?thesis
      by (auto simp: sharedBuffer0_def)
  qed
qed

lemma inv_flag_kill:
  assumes "inv_flag w" and "inv_handles w"
  shows "inv_flag (kill p w)"
  unfolding inv_flag_def
proof (intro allI impI)
  fix q
  assume Q: "pc (procs (kill p w) q) \<in> {L112, L113}"
  have F: "\<And>x. pc (procs w x) = L112 \<or> pc (procs w x) = L113 \<Longrightarrow> sharedBuffer0 x w \<noteq> 0"
    using assms(1) by (auto simp: inv_flag_def)
  have R: "\<And>x. has_region (pc (procs w x)) \<Longrightarrow> holds_region x (regions w (shm w x))"
    using assms(2) by (auto simp: inv_handles_def)
  show "sharedBuffer0 q (kill p w) \<noteq> 0"
  proof (cases "live (pc (procs w p))")
    case False
    then have "kill p w = w" by (simp add: kill_def)
    with Q F [of q] show ?thesis by auto
  next
    case True
    then have qp: "q \<noteq> p" using Q by (auto simp: kill_def os_defs)
    then have pcq: "pc (procs w q) = L112 \<or> pc (procs w q) = L113"
      using Q by (simp add: kill_procs_other)
    then have hq: "has_region (pc (procs w q))" by auto
    have "flag_of (regions (kill p w) (shm w q)) = flag_of (regions w (shm w q))"
      using R [OF hq] qp True
      by (auto simp: kill_def os_defs flag_of_close_other)
    with F [OF pcq] show ?thesis
      by (simp add: sharedBuffer0_def)
  qed
qed

lemma isLeader_step_mono:
  assumes "role_ok (pc (procs w p)) (sharedType (procs w p))" and "isLeader (procs w x)"
  shows "isLeader (procs (step hdr p env w) x) \<and> shm (step hdr p env w) x = shm w x"
proof (cases "x = p")
  case False
  then show ?thesis using assms(2) by (simp add: step_procs_other step_names_other)
next
  case True
  with assms have ns: "pc (procs w p) \<noteq> NotStarted" and n73: "pc (procs w p) \<noteq> L73"
    by (auto simp: isLeader_def)
  have "sharedType (procs (step hdr p env w) p) = sharedType (procs w p)"
    using ns n73
    by (cases "pc (procs w p)")
       (auto simp: step_def os_defs code_defs Let_def split: option.splits prod.splits)
  with True assms(2) ns show ?thesis
    by (simp add: isLeader_def step_names_started)
qed

lemma elected_step_mono:
  assumes "inv_role w" and "elected w n"
  shows "elected (step hdr p env w) n"
proof -
  from assms(2) obtain x where "isLeader (procs w x)" "shm w x = n"
    by (auto simp: elected_def)
  moreover have "role_ok (pc (procs w p)) (sharedType (procs w p))"
    using assms(1) by (simp add: inv_role_def)
  ultimately show ?thesis
    using isLeader_step_mono [of w p x hdr env] by (auto simp: elected_def)
qed

lemma isLeader_kill [simp]: "isLeader (procs (kill p w) x) = isLeader (procs w x)"
  by (simp add: kill_def os_defs)

lemma sharedType_kill [simp]: "sharedType (procs (kill p w) x) = sharedType (procs w x)"
  by (simp add: kill_def os_defs)

lemma elected_kill [simp]: "elected (kill p w) n = elected w n"
  by (simp add: elected_def)

lemma regions_step_new:
  assumes "regions (step hdr p env w) n \<noteq> None" and "regions w n = None"
  shows "pc (procs w p) = L73 \<and> shm w p = n \<and> isLeader (procs (step hdr p env w) p)"
  using assms
  by (cases "pc (procs w p)")
     (auto simp: step_def os_defs code_defs Let_def isLeader_def region_write0_def
        region_memset_def region_close_def
        split: option.splits prod.splits if_splits)

lemma sharedType_step_new:
  assumes "sharedType (procs (step hdr p env w) x) \<noteq> None" and "sharedType (procs w x) = None"
  shows "x = p \<and> pc (procs w p) = L73 \<and> regions (step hdr p env w) (shm w p) \<noteq> None
         \<and> (regions w (shm w p) = None \<longrightarrow> isLeader (procs (step hdr p env w) p))"
proof (cases "x = p")
  case False
  with assms show ?thesis by (simp add: step_procs_other)
next
  case True
  with assms show ?thesis
    by (cases "pc (procs w p)")
       (auto simp: step_def os_defs code_defs Let_def isLeader_def region_open_def
          split: option.splits prod.splits if_splits)
qed

lemma inv_elect_step:
  assumes "inv_elect w" and "inv_role w"
  shows "inv_elect (step hdr p env w)"
proof -
  let ?w = "step hdr p env w"
  have E1: "\<And>n. regions w n \<noteq> None \<Longrightarrow> elected w n"
    and E2: "\<And>x. sharedType (procs w x) \<noteq> None \<Longrightarrow> elected w (shm w x)"
    using assms(1) by (auto simp: inv_elect_def)
  have role: "\<And>x. role_ok (pc (procs w x)) (sharedType (procs w x))"
    using assms(2) by (simp add: inv_role_def)
  have mono: "\<And>n. elected w n \<Longrightarrow> elected ?w n"
    using assms(2) by (rule elected_step_mono)
  have names73: "pc (procs w p) = L73 \<Longrightarrow> shm ?w = shm w"
    by (simp add: step_names_started)
  have R: "\<And>n. regions ?w n \<noteq> None \<Longrightarrow> elected ?w n"
  proof -
    fix n assume n: "regions ?w n \<noteq> None"
    show "elected ?w n"
    proof (cases "regions w n = None")
      case False
      then show ?thesis using E1 mono by blast
    next
      case True
      from regions_step_new [OF n True] names73 show ?thesis
        by (auto simp: elected_def)
    qed
  qed
  have T: "\<And>x. sharedType (procs ?w x) \<noteq> None \<Longrightarrow> elected ?w (shm ?w x)"
  proof -
    fix x assume x: "sharedType (procs ?w x) \<noteq> None"
    show "elected ?w (shm ?w x)"
    proof (cases "sharedType (procs w x) = None")
      case False
      then have "elected ?w (shm w x)" using E2 mono by blast
      moreover have "shm ?w x = shm w x"
      proof (cases "x = p")
        case True
        with False role [of p] have "pc (procs w p) \<noteq> NotStarted" by auto
        then show ?thesis by (simp add: step_names_started)
      qed (simp add: step_names_other)
      ultimately show ?thesis by simp
    next
      case True
      from sharedType_step_new [OF x True] names73 R [of "shm w p"] show ?thesis
        by auto
    qed
  qed
  show ?thesis
    unfolding inv_elect_def using R T by blast
qed

lemma regions_kill_old: "regions (kill p w) n \<noteq> None \<Longrightarrow> regions w n \<noteq> None"
  by (auto simp: kill_def os_defs region_close_def split: if_splits option.splits)

lemma inv_elect_kill:
  assumes "inv_elect w"
  shows "inv_elect (kill p w)"
  using assms regions_kill_old [of p w]
  by (auto simp: inv_elect_def)

lemma events_of_simps [simp]:
  "events_of q (emit p e w) = (if q = p then events_of q w @ [e] else events_of q w)"
  "events_of q (set_pc p c w) = events_of q w"
  "events_of q (upd_proc p f w) = events_of q w"
  "events_of q (upd_mutex n g w) = events_of q w"
  "events_of q (upd_region n h w) = events_of q w"
  by (simp_all add: events_of_def)

lemma events_of_cong: "trace w' = trace w \<Longrightarrow> events_of q w' = events_of q w"
  by (simp add: events_of_def)

lemma memsets_cong: "events_of q w' = events_of q w \<Longrightarrow> memsets q w' = memsets q w"
  by (simp add: memsets_def)

lemma events_of_step_other: "q \<noteq> p \<Longrightarrow> events_of q (step hdr p env w) = events_of q w"
  by (cases "pc (procs w p)")
     (auto simp: step_def os_defs code_defs Let_def split: option.splits prod.splits)

lemma events_of_kill [simp]: "events_of q (kill p w) = events_of q w"
  by (simp add: kill_def os_defs)

lemma is_memset_simps [simp]:
  "is_memset (E_memset n)" "\<not> is_memset E_ErrorExit" "\<not> is_memset (E_CreateMutex s)"
  "\<not> is_memset (E_CreateFileMapping s e)" "\<not> is_memset E_fatalbox"
  "\<not> is_memset (E_MapViewOfFile b)" "\<not> is_memset E_CloseHandle" "\<not> is_memset E_timer_Start"
  "\<not> is_memset (E_read v)" "\<not> is_memset (E_write v)"
  "\<not> is_memset (E_WaitForSingleObject t r)" "\<not> is_memset E_ReleaseMutex"
  "\<not> is_memset E_createNewSession" "\<not> is_memset (E_FindWindowA b)"
  "\<not> is_memset E_bringToForeground" "\<not> is_memset (E_exit x)"
  by (simp_all add: is_memset_def)

lemma once_step_self:
  assumes "length (memsets p w) \<le> 1"
    and "memsets p w \<noteq> [] \<longrightarrow>
           isLeader (procs w p) \<and> pc (procs w p) \<notin> {NotStarted, L73, L86, L97}"
    and "role_ok (pc (procs w p)) (sharedType (procs w p))"
  shows "length (memsets p (step hdr p env w)) \<le> 1
     \<and> (memsets p (step hdr p env w) \<noteq> [] \<longrightarrow>
           isLeader (procs (step hdr p env w) p)
         \<and> pc (procs (step hdr p env w) p) \<notin> {NotStarted, L73, L86, L97})"
  using assms
  by (cases "pc (procs w p)")
     (auto simp: step_def os_defs code_defs Let_def memsets_def isLeader_def
        split: option.splits prod.splits if_splits)

lemma inv_once_step:
  assumes "inv_once w" and "inv_role w"
  shows "inv_once (step hdr p env w)"
  unfolding inv_once_def
proof
  fix q
  let ?w = "step hdr p env w"
  have O: "length (memsets q w) \<le> 1
     \<and> (memsets q w \<noteq> [] \<longrightarrow>
           isLeader (procs w q) \<and> pc (procs w q) \<notin> {NotStarted, L73, L86, L97})"
    using assms(1) by (simp add: inv_once_def)
  have role: "role_ok (pc (procs w p)) (sharedType (procs w p))"
    using assms(2) by (simp add: inv_role_def)
  show "length (memsets q ?w) \<le> 1
     \<and> (memsets q ?w \<noteq> [] \<longrightarrow>
           isLeader (procs ?w q) \<and> pc (procs ?w q) \<notin> {NotStarted, L73, L86, L97})"
  proof (cases "q = p")
    case True
    with O role once_step_self [of p w hdr env] show ?thesis by simp
  next
    case False
    then have "memsets q ?w = memsets q w"
      by (simp add: memsets_def events_of_step_other)
    with O False show ?thesis by (simp add: step_procs_other)
  qed
qed

lemma inv_once_kill:
  assumes "inv_once w"
  shows "inv_once (kill p w)"
  unfolding inv_once_def
proof
  fix q
  have O: "length (memsets q w) \<le> 1
     \<and> (memsets q w \<noteq> [] \<longrightarrow>
           isLeader (procs w q) \<and> pc (procs w q) \<notin> {NotStarted, L73, L86, L97})"
    using assms(1) by (simp add: inv_once_def)
  have m: "memsets q (kill p w) = memsets q w"
    by (simp add: memsets_def)
  show "length (memsets q (kill p w)) \<le> 1
     \<and> (memsets q (kill p w) \<noteq> [] \<longrightarrow>
           isLeader (procs (kill p w) q)
         \<and> pc (procs (kill p w) q) \<notin> {NotStarted, L73, L86, L97})"
  proof (cases "q = p")
    case False
    with O m show ?thesis by (simp add: kill_procs_other)
  next
    case True
    with O m show ?thesis by (auto simp: kill_def os_defs)
  qed
qed

subsection \<open>Every reachable world satisfies the invariants\<close>

lemma inv_all_world0: "inv_all world0"
  by (simp add: inv_all_def inv_def inv_handles_def inv_role_def inv_leader_def inv_lock_def
      inv_flag_def inv_elect_def inv_once_def world0_def process0_def isLeader_def
      memsets_def events_of_def shm_def del: names_def_raw)

lemma inv_all_exec:
  assumes "inv_all w"
  shows "inv_all (exec hdr a w)"
proof (cases a)
  case (Step p env)
  with assms show ?thesis
    by (simp add: inv_all_def inv_def exec_def inv_handles_step inv_role_step inv_leader_step
        inv_lock_step inv_flag_step inv_elect_step inv_once_step)
next
  case (Kill p)
  with assms show ?thesis
    by (simp add: inv_all_def inv_def exec_def inv_handles_kill inv_role_kill inv_leader_kill
        inv_lock_kill inv_flag_kill inv_elect_kill inv_once_kill)
qed

lemma inv_all_run_from: "inv_all w \<Longrightarrow> inv_all (run hdr sched w)"
  by (induction sched arbitrary: w) (simp_all add: inv_all_exec)

lemma inv_run: "inv_all (run hdr sched world0)"
  by (rule inv_all_run_from [OF inv_all_world0])

lemma run_append: "run hdr (xs @ ys) w = run hdr ys (run hdr xs w)"
  by (induction xs arbitrary: w) simp_all

subsection \<open>The claims\<close>

lemma mutex_wait_NoWait_cases:
  obtains r mo where "mutex_wait p NoWait x = Some (r, mo)"
  using wait_NoWait_returns [of p x] by blast

text \<open>
  C7.  When \<^verbatim>\<open>FindWindowA\<close> finds the window, \<^verbatim>\<open>sendMsgToLeader\<close> returns after exactly two
  calls, the lookup and \<^verbatim>\<open>bringToForeground\<close>: it makes no wait on the mutex and no read or
  write of the flag, and it leaves every region, every mutex and the process table as
  they were.  (The lookup of line 124 is by window class, \<^verbatim>\<open>PuTTY-ND2_ConfigBox\<close>; whether
  it succeeds is the environment's answer.)
\<close>

theorem C7_window_found:
  "\<exists>w'. sendMsgToLeader p True w = Some w'
     \<and> trace w' = trace w @ [(p, E_FindWindowA True), (p, E_bringToForeground)]
     \<and> regions w' = regions w \<and> mutexes w' = mutexes w \<and> procs w' = procs w"
  by (simp add: sendMsgToLeader_def FindWindowA_def bringToForeground_def)

text \<open>
  C6.  When the window is not found and the zero wait of line 130 returns anything but
  \<^verbatim>\<open>WAIT_OBJECT_0\<close>, \<^verbatim>\<open>sendMsgToLeader\<close> returns after the lookup and the wait: no byte of any
  region is written, no \<^verbatim>\<open>fatalbox\<close> or other error call is made, and the \<^verbatim>\<open>exit(0)\<close> of line 62
  that follows in \<^verbatim>\<open>handleCmd\<close> ends the process with status 0.
\<close>

theorem C6_lock_not_acquired:
  assumes "mutex_wait p NoWait (mutexes w (mtx w p)) = Some (r, mo)" and "r \<noteq> WAIT_OBJECT_0"
  shows "\<exists>w'. sendMsgToLeader p False w = Some w'
     \<and> regions w' = regions w
     \<and> trace w' = trace w @ [(p, E_FindWindowA False), (p, E_WaitForSingleObject NoWait r)]
     \<and> pc (procs (exit_process p 0 w') p) = Exited 0
     \<and> trace (exit_process p 0 w') = trace w' @ [(p, E_exit 0)]
     \<and> (\<forall>hdr env w0. toBeLeader hdr p env w0 = (Some False, w) \<and> \<not> window env
           \<longrightarrow> handleCmd hdr p env w0 = Some (exit_process p 0 w'))"
  using assms
  by (auto simp: sendMsgToLeader_def FindWindowA_def WaitForSingleObject_def handleCmd_def
        exit_process_def process_rundown_def close_mutex_def close_region_def)

text \<open>
  C10.  In \<^verbatim>\<open>sendMsgToLeader\<close> (window not found) the zero wait always returns; the flag
  is set to 1 and the mutex released exactly when it returned \<^verbatim>\<open>WAIT_OBJECT_0\<close>.  For
  every other result the function returns after the wait, with the regions unchanged
  and the mutex as the wait left it.  The result is \<^verbatim>\<open>WAIT_ABANDONED\<close> exactly when the
  mutex was unowned and abandoned by an owner that ended; the follower then owns the
  mutex on return and has not released it.
\<close>

theorem C10_only_WAIT_OBJECT_0:
  "\<exists>r mo w'. mutex_wait p NoWait (mutexes w (mtx w p)) = Some (r, mo)
     \<and> sendMsgToLeader p False w = Some w'
     \<and> (if r = WAIT_OBJECT_0
         then trace w' = trace w @ [(p, E_FindWindowA False),
                (p, E_WaitForSingleObject NoWait r), (p, E_write 1), (p, E_ReleaseMutex)]
            \<and> regions w' = (regions w)(shm w p := region_write0 1 (regions w (shm w p)))
            \<and> mutexes w' = (mutexes w)(mtx w p := mutex_release p mo)
         else trace w' = trace w @ [(p, E_FindWindowA False),
                (p, E_WaitForSingleObject NoWait r)]
            \<and> regions w' = regions w
            \<and> mutexes w' = (mutexes w)(mtx w p := mo))
     \<and> (r = WAIT_ABANDONED \<longrightarrow> owns p (mutexes w' (mtx w' p)))
     \<and> (r = WAIT_ABANDONED \<longleftrightarrow>
          (\<exists>m. mutexes w (mtx w p) = Some m \<and> owner m = None \<and> abandoned m))"
proof -
  obtain r mo where wait: "mutex_wait p NoWait (mutexes w (mtx w p)) = Some (r, mo)"
    by (rule mutex_wait_NoWait_cases)
  have ab: "r = WAIT_ABANDONED \<longleftrightarrow>
      (\<exists>m. mutexes w (mtx w p) = Some m \<and> owner m = None \<and> abandoned m)"
    using wait by (auto simp: mutex_wait_def split: option.splits if_splits)
  have own: "r = WAIT_ABANDONED \<Longrightarrow> owns p mo"
    using owns_wait [OF wait, of p] by simp
  show ?thesis
    using wait ab own
    by (cases "r = WAIT_OBJECT_0")
       (auto simp: sendMsgToLeader_def FindWindowA_def WaitForSingleObject_def
          write_sharedBuffer0_def ReleaseMutex_def)
qed

text \<open>
  C2.  \<^verbatim>\<open>leaderTimerCallback\<close> first reads the flag.  If it is zero the call returns with
  that read as its only event: no wait, no release, no write.  If it is non-zero the
  call waits for the mutex without time limit: it does not return while another
  process owns the mutex, and otherwise its events are, in this order, the read, the
  wait, the write of 0, \<^verbatim>\<open>createNewSession\<close> and \<^verbatim>\<open>ReleaseMutex\<close>; the flag is 0 afterwards, and
  the leader, holding a handle to the mutex, owns it from the wait to the release.
\<close>

theorem C2_poll:
  "(sharedBuffer0 p w = 0 \<longrightarrow> leaderTimerCallback p w = Some (emit p (E_read 0) w))
   \<and> (sharedBuffer0 p w \<noteq> 0 \<longrightarrow>
        (case mutex_wait p INFINITE (mutexes w (mtx w p)) of
           None \<Rightarrow> leaderTimerCallback p w = None
         | Some (r, mo) \<Rightarrow>
             (\<exists>w'. leaderTimerCallback p w = Some w'
                \<and> trace w' = trace w @ [(p, E_read (sharedBuffer0 p w)),
                     (p, E_WaitForSingleObject INFINITE r), (p, E_write 0),
                     (p, E_createNewSession), (p, E_ReleaseMutex)]
                \<and> sharedBuffer0 p w' = 0
                \<and> mutexes w' = (mutexes w)(mtx w p := mutex_release p mo)
                \<and> (holds_mutex p (mutexes w (mtx w p)) \<longrightarrow> owns p mo))))
   \<and> (mutex_wait p INFINITE (mutexes w (mtx w p)) = None \<longleftrightarrow>
        (\<exists>m q. mutexes w (mtx w p) = Some m \<and> owner m = Some q \<and> q \<noteq> p))"
proof (intro conjI impI)
  show "leaderTimerCallback p w = Some (emit p (E_read 0) w)" if "sharedBuffer0 p w = 0"
    using that by (simp add: leaderTimerCallback_def read_sharedBuffer0_def)
next
  assume nz: "sharedBuffer0 p w \<noteq> 0"
  then have ex: "regions w (shm w p) \<noteq> None"
    by (auto simp: sharedBuffer0_def flag_of_def split: option.splits)
  show "case mutex_wait p INFINITE (mutexes w (mtx w p)) of
           None \<Rightarrow> leaderTimerCallback p w = None
         | Some (r, mo) \<Rightarrow>
             (\<exists>w'. leaderTimerCallback p w = Some w'
                \<and> trace w' = trace w @ [(p, E_read (sharedBuffer0 p w)),
                     (p, E_WaitForSingleObject INFINITE r), (p, E_write 0),
                     (p, E_createNewSession), (p, E_ReleaseMutex)]
                \<and> sharedBuffer0 p w' = 0
                \<and> mutexes w' = (mutexes w)(mtx w p := mutex_release p mo)
                \<and> (holds_mutex p (mutexes w (mtx w p)) \<longrightarrow> owns p mo))"
  proof (cases "mutex_wait p INFINITE (mutexes w (mtx w p))")
    case None
    with nz show ?thesis
      by (simp add: leaderTimerCallback_def read_sharedBuffer0_def WaitForSingleObject_def)
  next
    case (Some x)
    obtain r mo where x: "x = (r, mo)" by (cases x)
    have "holds_mutex p (mutexes w (mtx w p)) \<Longrightarrow> owns p mo"
      using Some x by (auto intro: wait_INFINITE_acquires)
    with Some x nz ex show ?thesis
      by (auto simp: leaderTimerCallback_def read_sharedBuffer0_def WaitForSingleObject_def
            write_sharedBuffer0_def createNewSession_def ReleaseMutex_def sharedBuffer0_def
            flag_of_write0)
  qed
next
  show "mutex_wait p INFINITE (mutexes w (mtx w p)) = None \<longleftrightarrow>
        (\<exists>m q. mutexes w (mtx w p) = Some m \<and> owner m = Some q \<and> q \<noteq> p)"
    by (auto simp: mutex_wait_def split: option.splits)
qed

lemma inv_run_parts:
  "inv_handles (run hdr sched world0)" "inv_role (run hdr sched world0)"
  "inv_leader (run hdr sched world0)" "inv_lock (run hdr sched world0)"
  "inv_flag (run hdr sched world0)" "inv_elect (run hdr sched world0)"
  "inv_once (run hdr sched world0)"
  using inv_run [of hdr sched] by (simp_all add: inv_all_def inv_def)

text \<open>
  C1.  In every world reachable by any interleaving: (a) among the processes that hold
  a region of one name at most one has the leader's role; (b) if N, at least 2,
  processes have passed line 84 under one region name and no process elected leader
  under that name has ended, then exactly one of them has the leader's role and the N - 1
  others have the follower's.
\<close>

theorem C1_single_leader:
  assumes "w = run hdr sched world0"
  shows "(\<forall>p q. has_region (pc (procs w p)) \<and> has_region (pc (procs w q))
            \<and> isLeader (procs w p) \<and> isLeader (procs w q) \<and> shm w p = shm w q \<longrightarrow> p = q)
     \<and> (\<forall>n N. card {p. shm w p = n \<and> sharedType (procs w p) \<noteq> None} = N \<and> 2 \<le> N
            \<and> (\<forall>p. shm w p = n \<and> isLeader (procs w p) \<longrightarrow> has_region (pc (procs w p)))
          \<longrightarrow> card {p. shm w p = n \<and> sharedType (procs w p) = Some SHARED_TYPE_LEADER} = 1
            \<and> card {p. shm w p = n \<and> sharedType (procs w p) = Some SHARED_TYPE_FOLLOWER}
                = N - 1)"
proof -
  have IL: "\<And>a b. has_region (pc (procs w a)) \<Longrightarrow> has_region (pc (procs w b)) \<Longrightarrow>
      isLeader (procs w a) \<Longrightarrow> isLeader (procs w b) \<Longrightarrow> shm w a = shm w b \<Longrightarrow> a = b"
    using inv_run_parts(3) [of hdr sched] unfolding assms inv_leader_def by blast
  have EL: "\<And>x. sharedType (procs w x) \<noteq> None \<Longrightarrow> elected w (shm w x)"
    using inv_run_parts(6) [of hdr sched] unfolding assms inv_elect_def by blast
  have part2: "card {p. shm w p = n \<and> sharedType (procs w p) = Some SHARED_TYPE_LEADER} = 1
            \<and> card {p. shm w p = n \<and> sharedType (procs w p) = Some SHARED_TYPE_FOLLOWER}
                = N - 1"
    if cardS: "card {p. shm w p = n \<and> sharedType (procs w p) \<noteq> None} = N" and N: "2 \<le> N"
      and alive: "\<And>p. shm w p = n \<Longrightarrow> isLeader (procs w p) \<Longrightarrow> has_region (pc (procs w p))"
    for n N
  proof -
    let ?S = "{p. shm w p = n \<and> sharedType (procs w p) \<noteq> None}"
    let ?L = "{p. shm w p = n \<and> sharedType (procs w p) = Some SHARED_TYPE_LEADER}"
    let ?F = "{p. shm w p = n \<and> sharedType (procs w p) = Some SHARED_TYPE_FOLLOWER}"
    from cardS N have "0 < card ?S" by simp
    then have fin: "finite ?S" and ne: "?S \<noteq> {}"
      by (simp_all add: card_gt_0_iff)
    from ne obtain x where x: "shm w x = n" "sharedType (procs w x) \<noteq> None" by blast
    from EL [OF x(2)] x(1) obtain l where l: "isLeader (procs w l)" "shm w l = n"
      unfolding elected_def by blast
    have uniq: "y = l" if "shm w y = n" "isLeader (procs w y)" for y
      using IL [of y l] alive [of y] alive [of l] that l by simp
    have lS: "l \<in> ?S" and lL: "sharedType (procs w l) = Some SHARED_TYPE_LEADER"
      using l by (simp_all add: isLeader_def)
    have L: "?L = {l}"
    proof (intro set_eqI iffI)
      fix y assume "y \<in> ?L"
      then have "shm w y = n" "isLeader (procs w y)" by (simp_all add: isLeader_def)
      then show "y \<in> {l}" using uniq by simp
    next
      fix y assume "y \<in> {l}"
      then show "y \<in> ?L" using l(2) lL by simp
    qed
    have F: "?F = ?S - {l}"
    proof (intro set_eqI iffI)
      fix y assume "y \<in> ?F"
      then have y: "shm w y = n" "sharedType (procs w y) = Some SHARED_TYPE_FOLLOWER" by simp_all
      with lL have "y \<noteq> l" by auto
      with y show "y \<in> ?S - {l}" by simp
    next
      fix y assume "y \<in> ?S - {l}"
      then have y: "shm w y = n" "y \<noteq> l" and "sharedType (procs w y) \<noteq> None" by simp_all
      then obtain t where t: "sharedType (procs w y) = Some t" by blast
      have "t = SHARED_TYPE_FOLLOWER"
      proof (cases t)
        case SHARED_TYPE_LEADER
        with t have "isLeader (procs w y)" by (simp add: isLeader_def)
        with uniq [OF y(1)] y(2) show ?thesis by simp
      qed simp
      with t y(1) show "y \<in> ?F" by simp
    qed
    have "card (?S - {l}) = N - 1"
      using fin lS cardS by simp
    with L F show ?thesis by simp
  qed
  have part1: "\<forall>p q. has_region (pc (procs w p)) \<and> has_region (pc (procs w q))
            \<and> isLeader (procs w p) \<and> isLeader (procs w q) \<and> shm w p = shm w q \<longrightarrow> p = q"
    using IL by blast
  have "\<forall>n N. card {p. shm w p = n \<and> sharedType (procs w p) \<noteq> None} = N \<and> 2 \<le> N
            \<and> (\<forall>p. shm w p = n \<and> isLeader (procs w p) \<longrightarrow> has_region (pc (procs w p)))
          \<longrightarrow> card {p. shm w p = n \<and> sharedType (procs w p) = Some SHARED_TYPE_LEADER} = 1
            \<and> card {p. shm w p = n \<and> sharedType (procs w p) = Some SHARED_TYPE_FOLLOWER}
                = N - 1"
  proof (intro allI impI)
    fix n N
    assume H: "card {p. shm w p = n \<and> sharedType (procs w p) \<noteq> None} = N \<and> 2 \<le> N
       \<and> (\<forall>p. shm w p = n \<and> isLeader (procs w p) \<longrightarrow> has_region (pc (procs w p)))"
    show "card {p. shm w p = n \<and> sharedType (procs w p) = Some SHARED_TYPE_LEADER} = 1
            \<and> card {p. shm w p = n \<and> sharedType (procs w p) = Some SHARED_TYPE_FOLLOWER}
                = N - 1"
    proof (rule part2)
      show "card {p. shm w p = n \<and> sharedType (procs w p) \<noteq> None} = N" using H by simp
      show "2 \<le> N" using H by simp
      show "has_region (pc (procs w p))" if "shm w p = n" "isLeader (procs w p)" for p
        using H that by blast
    qed
  qed
  with part1 show ?thesis by (rule conjI)
qed

lemma sharedType_step_keeps:
  assumes "role_ok (pc (procs w p)) (sharedType (procs w p))"
    and "sharedType (procs w x) = Some t"
  shows "sharedType (procs (step hdr p env w) x) = Some t"
proof (cases "x = p")
  case False
  with assms(2) show ?thesis by (simp add: step_procs_other)
next
  case True
  with assms have "pc (procs w p) \<noteq> NotStarted" "pc (procs w p) \<noteq> L73" by auto
  with True assms(2) show ?thesis
    by (cases "pc (procs w p)")
       (auto simp: step_def os_defs code_defs Let_def split: option.splits prod.splits)
qed

lemma sharedType_run_keeps:
  "inv_all w \<Longrightarrow> sharedType (procs w x) = Some t \<Longrightarrow>
   sharedType (procs (run hdr sched w) x) = Some t"
proof (induction sched arbitrary: w)
  case Nil
  then show ?case by simp
next
  case (Cons a as)
  have "sharedType (procs (exec hdr a w) x) = Some t"
  proof (cases a)
    case (Step p env)
    have "role_ok (pc (procs w p)) (sharedType (procs w p))"
      using Cons.prems(1) by (simp add: inv_all_def inv_def inv_role_def)
    with Step Cons.prems(2) show ?thesis
      by (simp add: exec_def sharedType_step_keeps)
  next
    case (Kill p)
    with Cons.prems(2) show ?thesis by (simp add: exec_def)
  qed
  with Cons.IH [OF inv_all_exec [OF Cons.prems(1)]] show ?case by simp
qed

lemma toBeLeader_returns:
  "toBeLeader hdr p env w = (Some b, w') \<Longrightarrow>
     create_ok env \<and> map_ok env
   \<and> sharedType (procs w' p) =
       Some (if regions w (shm w p) = None then SHARED_TYPE_LEADER else SHARED_TYPE_FOLLOWER)
   \<and> b = isLeader (procs w' p)"
  by (auto simp: toBeLeader_def CreateFileMapping_def MapViewOfFile_def Let_def isLeader_def
        memset_sharedBuffer_def
      split: if_splits option.splits)

lemma toBeLeader_granted:
  "create_ok env \<Longrightarrow> map_ok env \<Longrightarrow> \<exists>b w'. toBeLeader hdr p env w = (Some b, w')"
  by (simp add: toBeLeader_def CreateFileMapping_def MapViewOfFile_def Let_def)

text \<open>
  C5.  When \<^verbatim>\<open>toBeLeader\<close> returns, the role it has assigned is the follower's if and only
  if the last error of \<^verbatim>\<open>CreateFileMapping\<close> was \<^verbatim>\<open>ERROR_ALREADY_EXISTS\<close>, which is the case
  exactly when the region existed, and the leader's otherwise; it returns whether the
  role is the leader's; and it returns exactly when the creation and the mapping
  succeed.  In every interleaving a role once assigned is never changed by any later
  action, and no role is assigned before the process has run line 73.
\<close>

theorem C5_role_assignment:
  "(\<forall>b w'. toBeLeader hdr p env w = (Some b, w') \<longrightarrow>
       sharedType (procs w' p) =
         Some (if fst (snd (CreateFileMapping p (create_ok env) (shm w p) w)) = ERROR_ALREADY_EXISTS
               then SHARED_TYPE_FOLLOWER else SHARED_TYPE_LEADER)
     \<and> (fst (snd (CreateFileMapping p (create_ok env) (shm w p) w)) = ERROR_ALREADY_EXISTS
          \<longleftrightarrow> regions w (shm w p) \<noteq> None)
     \<and> b = isLeader (procs w' p))
   \<and> ((\<exists>b w'. toBeLeader hdr p env w = (Some b, w')) \<longleftrightarrow> create_ok env \<and> map_ok env)
   \<and> (\<forall>s1 s2 t. sharedType (procs (run hdr s1 world0) p) = Some t \<longrightarrow>
         sharedType (procs (run hdr s2 (run hdr s1 world0)) p) = Some t)
   \<and> (\<forall>s. pc (procs (run hdr s world0) p) = NotStarted \<or> pc (procs (run hdr s world0) p) = L73
         \<longrightarrow> sharedType (procs (run hdr s world0) p) = None)"
proof (intro conjI allI impI)
  fix b w'
  assume r: "toBeLeader hdr p env w = (Some b, w')"
  from toBeLeader_returns [OF r]
  show "sharedType (procs w' p) =
         Some (if fst (snd (CreateFileMapping p (create_ok env) (shm w p) w)) = ERROR_ALREADY_EXISTS
               then SHARED_TYPE_FOLLOWER else SHARED_TYPE_LEADER)"
    and "fst (snd (CreateFileMapping p (create_ok env) (shm w p) w)) = ERROR_ALREADY_EXISTS
          \<longleftrightarrow> regions w (shm w p) \<noteq> None"
    and "b = isLeader (procs w' p)"
    by (auto simp: CreateFileMapping_def Let_def split: option.splits)
next
  show "(\<exists>b w'. toBeLeader hdr p env w = (Some b, w')) \<longleftrightarrow> create_ok env \<and> map_ok env"
    using toBeLeader_returns [of hdr p env w] toBeLeader_granted [of env hdr p w] by blast
next
  fix s1 s2 t
  assume "sharedType (procs (run hdr s1 world0) p) = Some t"
  then show "sharedType (procs (run hdr s2 (run hdr s1 world0)) p) = Some t"
    by (rule sharedType_run_keeps [OF inv_run])
next
  fix s
  assume "pc (procs (run hdr s world0) p) = NotStarted \<or> pc (procs (run hdr s world0) p) = L73"
  moreover have "role_ok (pc (procs (run hdr s world0) p)) (sharedType (procs (run hdr s world0) p))"
    using inv_run_parts(2) [of hdr s] by (simp add: inv_role_def)
  ultimately show "sharedType (procs (run hdr s world0) p) = None"
    by auto
qed

lemma flag_of_close: "region_close p ro = None \<or> flag_of (region_close p ro) = flag_of ro"
  by (auto simp: region_close_def flag_of_def split: option.splits)

lemma region_close_idem [simp]: "region_close p (region_close p ro) = region_close p ro"
  by (auto simp: region_close_def split: option.splits)

lemma None_simps [simp]:
  "flag_of None = 0" "region_write0 v None = None" "region_memset k None = None"
  "region_close p None = None"
  by (simp_all add: flag_of_def region_write0_def region_memset_def region_close_def)

lemma flag_of_memset_gen:
  "flag_of (region_memset k ro) = (if 0 < k then 0 else flag_of ro)"
  by (auto simp: flag_of_def region_memset_def split: option.splits)

lemma step_flag_cases:
  "flag_of (regions (step hdr p env w) n) = flag_of (regions w n)
   \<or> regions (step hdr p env w) n = None
   \<or> (shm w p = n \<and> pc (procs w p) = L135 \<and> flag_of (regions (step hdr p env w) n) = 1)
   \<or> (shm w p = n \<and> pc (procs w p) = L113 \<and> pc (procs (step hdr p env w) p) = L114
        \<and> flag_of (regions (step hdr p env w) n) = 0)
   \<or> (shm w p = n \<and> pc (procs w p) = L97 \<and> isLeader (procs w p)
        \<and> flag_of (regions (step hdr p env w) n) = 0)"
  using flag_of_close [of p "regions w (shm w p)"]
  by (cases "pc (procs w p)")
     (auto simp: step_def os_defs code_defs Let_def flag_of_write0 flag_of_memset_gen
        names_upd_proc
        split: option.splits prod.splits if_splits)

lemma kill_flag_cases:
  "flag_of (regions (kill p w) n) = flag_of (regions w n) \<or> regions (kill p w) n = None"
  using flag_of_close [of p "regions w (shm w p)"]
  by (auto simp: kill_def os_defs)

text \<open>
  C3, amended.  In every interleaving, for every action: the flag of a region goes from 0
  to non-zero only by line 135 of a follower that owns its mutex, and the value is 1;
  the flag of a region that stays in existence goes from non-zero to 0 either by line
  113 of the leader while it owns its mutex, the leader's next control point being
  the callback of line 114, or by line 98 of the leader, its one zero-initialisation
  inside \<^verbatim>\<open>toBeLeader\<close>; the leader between its unlocked read and line 113 always finds
  the flag still non-zero; and the step at line 114 is the call of \<^verbatim>\<open>createNewSession\<close>.
\<close>

theorem C3_flag_transitions:
  assumes "w = run hdr sched world0" and "w' = exec hdr a w"
  shows "(\<forall>n. flag_of (regions w n) = 0 \<and> flag_of (regions w' n) \<noteq> 0 \<longrightarrow>
            (\<exists>p env. a = Step p env \<and> shm w p = n \<and> pc (procs w p) = L135
                \<and> sharedType (procs w p) = Some SHARED_TYPE_FOLLOWER
                \<and> owns p (mutexes w (mtx w p)) \<and> flag_of (regions w' n) = 1))
     \<and> (\<forall>n. flag_of (regions w n) \<noteq> 0 \<and> regions w' n \<noteq> None \<and> flag_of (regions w' n) = 0 \<longrightarrow>
            (\<exists>p env. a = Step p env \<and> shm w p = n \<and> isLeader (procs w p)
                \<and> (pc (procs w p) = L113 \<and> owns p (mutexes w (mtx w p))
                      \<and> pc (procs w' p) = L114
                    \<or> pc (procs w p) = L97 \<and> memsets p w = [])))
     \<and> (\<forall>p. pc (procs w p) = L112 \<or> pc (procs w p) = L113 \<longrightarrow> sharedBuffer0 p w \<noteq> 0)
     \<and> (\<forall>p env. pc (procs w p) = L114 \<longrightarrow>
            trace (step hdr p env w) = trace w @ [(p, E_createNewSession)]
          \<and> pc (procs (step hdr p env w) p) = L115)"
proof -
  have role: "\<And>p. role_ok (pc (procs w p)) (sharedType (procs w p))"
    using inv_run_parts(2) [of hdr sched] by (simp add: assms(1) inv_role_def)
  have lock: "\<And>p. locked (pc (procs w p)) \<Longrightarrow> owns p (mutexes w (mtx w p))"
    using inv_run_parts(4) [of hdr sched] by (simp add: assms(1) inv_lock_def)
  have once: "\<And>p. memsets p w \<noteq> [] \<Longrightarrow> pc (procs w p) \<noteq> L97"
    using inv_run_parts(7) [of hdr sched] by (auto simp: assms(1) inv_once_def)
  have flag: "\<And>p. pc (procs w p) = L112 \<or> pc (procs w p) = L113 \<Longrightarrow> sharedBuffer0 p w \<noteq> 0"
    using inv_run_parts(5) [of hdr sched] by (auto simp: assms(1) inv_flag_def)
  have up: "\<exists>p env. a = Step p env \<and> shm w p = n \<and> pc (procs w p) = L135
                \<and> sharedType (procs w p) = Some SHARED_TYPE_FOLLOWER
                \<and> owns p (mutexes w (mtx w p)) \<and> flag_of (regions w' n) = 1"
    if "flag_of (regions w n) = 0" "flag_of (regions w' n) \<noteq> 0" for n
  proof (cases a)
    case (Kill p)
    with that kill_flag_cases [of p w n] show ?thesis
      by (auto simp: assms(2) exec_def flag_of_def)
  next
    case (Step p env)
    with that step_flag_cases [of hdr p env w n]
    have "shm w p = n \<and> pc (procs w p) = L135 \<and> flag_of (regions w' n) = 1"
      by (auto simp: assms(2) exec_def flag_of_def)
    with Step role [of p] lock [of p] show ?thesis by auto
  qed
  have down: "\<exists>p env. a = Step p env \<and> shm w p = n \<and> isLeader (procs w p)
                \<and> (pc (procs w p) = L113 \<and> owns p (mutexes w (mtx w p))
                      \<and> pc (procs w' p) = L114
                    \<or> pc (procs w p) = L97 \<and> memsets p w = [])"
    if "flag_of (regions w n) \<noteq> 0" "regions w' n \<noteq> None" "flag_of (regions w' n) = 0" for n
  proof (cases a)
    case (Kill p)
    with that kill_flag_cases [of p w n] show ?thesis
      by (auto simp: assms(2) exec_def)
  next
    case (Step p env)
    with that step_flag_cases [of hdr p env w n]
    have "shm w p = n \<and> (pc (procs w p) = L113 \<and> pc (procs w' p) = L114
            \<or> pc (procs w p) = L97 \<and> isLeader (procs w p))"
      by (auto simp: assms(2) exec_def)
    with Step role [of p] lock [of p] once [of p] show ?thesis
      by (auto simp: isLeader_def)
  qed
  have cb: "trace (step hdr p env w) = trace w @ [(p, E_createNewSession)]
          \<and> pc (procs (step hdr p env w) p) = L115"
    if "pc (procs w p) = L114" for p env
    using that by (simp add: step_def createNewSession_def)
  show ?thesis
    using up down flag cb by blast
qed

lemma callbacks_emit [simp]:
  "callbacks (emit p e w) = (if e = E_createNewSession then Suc (callbacks w) else callbacks w)"
  by (simp add: callbacks_def)

lemma flag_writes_emit [simp]:
  "flag_writes (emit p e w) = (if e = E_write 1 then Suc (flag_writes w) else flag_writes w)"
  by (simp add: flag_writes_def)

lemma counts_cong [simp]:
  "callbacks (upd_mutex n f w) = callbacks w" "callbacks (upd_region n g w) = callbacks w"
  "flag_writes (upd_mutex n f w) = flag_writes w" "flag_writes (upd_region n g w) = flag_writes w"
  by (simp_all add: callbacks_def flag_writes_def)

lemma notify_one:
  assumes "mutexes w (mtx w f) = Some m" and "owner m = None" and "\<not> abandoned m"
    and "regions w (shm w f) \<noteq> None"
  shows "\<exists>w' m'. sendMsgToLeader f False w = Some w' \<and> procs w' = procs w
     \<and> mutexes w' (mtx w f) = Some m' \<and> owner m' = None \<and> \<not> abandoned m'
     \<and> regions w' (shm w f) \<noteq> None \<and> flag_of (regions w' (shm w f)) = 1
     \<and> callbacks w' = callbacks w \<and> flag_writes w' = Suc (flag_writes w)"
  using assms
  by (auto simp: sendMsgToLeader_def FindWindowA_def WaitForSingleObject_def
        write_sharedBuffer0_def ReleaseMutex_def mutex_wait_def mutex_release_def
        region_write0_def flag_of_def)

lemma notify_all_writes:
  assumes "\<forall>f\<in>set fs. shm w f = n \<and> mtx w f = k"
    and "mutexes w k = Some m" and "owner m = None" and "\<not> abandoned m"
    and "regions w n \<noteq> None"
  shows "\<exists>w' m'. notify_all fs w = Some w' \<and> procs w' = procs w
     \<and> mutexes w' k = Some m' \<and> owner m' = None \<and> \<not> abandoned m'
     \<and> regions w' n \<noteq> None \<and> (fs \<noteq> [] \<longrightarrow> flag_of (regions w' n) = 1)
     \<and> callbacks w' = callbacks w \<and> flag_writes w' = flag_writes w + length fs"
  using assms
proof (induction fs arbitrary: w m)
  case Nil
  then show ?case by simp
next
  case (Cons f fs)
  have f: "shm w f = n" "mtx w f = k" using Cons.prems(1) by simp_all
  from notify_one [of w f m] Cons.prems f
  obtain w1 m1 where w1: "sendMsgToLeader f False w = Some w1" "procs w1 = procs w"
      "mutexes w1 k = Some m1" "owner m1 = None" "\<not> abandoned m1"
      "regions w1 n \<noteq> None" "flag_of (regions w1 n) = 1"
      "callbacks w1 = callbacks w" "flag_writes w1 = Suc (flag_writes w)"
    by auto
  have names: "shm w1 = shm w" "mtx w1 = mtx w"
    using names_cong [OF w1(2)] by simp_all
  have "\<forall>g\<in>set fs. shm w1 g = n \<and> mtx w1 g = k"
    using Cons.prems(1) names by simp
  from Cons.IH [OF this w1(3) w1(4) w1(5) w1(6)]
  obtain w2 m2 where w2: "notify_all fs w1 = Some w2" "procs w2 = procs w1"
      "mutexes w2 k = Some m2" "owner m2 = None" "\<not> abandoned m2"
      "regions w2 n \<noteq> None" "fs \<noteq> [] \<longrightarrow> flag_of (regions w2 n) = 1"
      "callbacks w2 = callbacks w1" "flag_writes w2 = flag_writes w1 + length fs"
    by auto
  have "flag_of (regions w2 n) = 1"
  proof (cases fs)
    case Nil
    with w2(1) w1(7) show ?thesis by simp
  next
    case (Cons g gs)
    with w2(7) show ?thesis by simp
  qed
  with w1 w2 show ?case by simp
qed

text \<open>
  C4.  Let any number, at least one, of followers of one leader run \<^verbatim>\<open>sendMsgToLeader\<close>
  to completion one after the other, each acquiring the free mutex and writing the
  flag.  There are as many writes as followers and no callback; the flag is 1; and the
  leader's next \<^verbatim>\<open>leaderTimerCallback\<close> calls \<^verbatim>\<open>createNewSession\<close> exactly once and leaves the
  flag at 0.
\<close>

theorem C4_coalescing:
  assumes "fs \<noteq> []" and "\<forall>f\<in>set fs. shm w f = shm w l \<and> mtx w f = mtx w l"
    and "mutexes w (mtx w l) = Some m" and "owner m = None" and "\<not> abandoned m"
    and "regions w (shm w l) \<noteq> None"
  shows "\<exists>w1 w2. notify_all fs w = Some w1
     \<and> flag_writes w1 = flag_writes w + length fs \<and> callbacks w1 = callbacks w
     \<and> sharedBuffer0 l w1 = 1
     \<and> leaderTimerCallback l w1 = Some w2
     \<and> callbacks w2 = callbacks w1 + 1 \<and> sharedBuffer0 l w2 = 0"
proof -
  from notify_all_writes [OF assms(2) assms(3) assms(4) assms(5) assms(6)] assms(1)
  obtain w1 m1 where w1: "notify_all fs w = Some w1" "procs w1 = procs w"
      "mutexes w1 (mtx w l) = Some m1" "owner m1 = None" "\<not> abandoned m1"
      "regions w1 (shm w l) \<noteq> None" "flag_of (regions w1 (shm w l)) = 1"
      "callbacks w1 = callbacks w" "flag_writes w1 = flag_writes w + length fs"
    by auto
  have names: "shm w1 = shm w" "mtx w1 = mtx w"
    using names_cong [OF w1(2)] by simp_all
  have flag: "sharedBuffer0 l w1 = 1"
    using w1(7) names by (simp add: sharedBuffer0_def)
  have "\<exists>w2. leaderTimerCallback l w1 = Some w2
     \<and> callbacks w2 = callbacks w1 + 1 \<and> sharedBuffer0 l w2 = 0"
    using flag w1(3) w1(4) w1(6) names
    by (auto simp: leaderTimerCallback_def read_sharedBuffer0_def WaitForSingleObject_def
          write_sharedBuffer0_def createNewSession_def ReleaseMutex_def mutex_wait_def
          sharedBuffer0_def flag_of_write0)
  with w1 flag show ?thesis by auto
qed

lemma memset_event_memsets:
  "(p, E_memset k) \<in> set (trace w) \<Longrightarrow> memsets p w \<noteq> []"
  by (auto simp: memsets_def events_of_def filter_empty_conv is_memset_def intro!: bexI [of _ "(p, E_memset k)"])

lemma bytes_close:
  "region_close p ro = Some r' \<Longrightarrow> \<exists>r. ro = Some r \<and> bytes r' = bytes r"
  by (auto simp: region_close_def split: option.splits if_splits)

lemma follower_step_frame:
  assumes "sharedType (procs w p) = Some SHARED_TYPE_FOLLOWER"
    and "role_ok (pc (procs w p)) (sharedType (procs w p))"
    and "regions (step hdr p env w) n = Some r'"
  shows "\<exists>r. regions w n = Some r \<and> (\<forall>i. i \<noteq> 0 \<longrightarrow> bytes r' i = bytes r i)"
  using assms
  by (cases "pc (procs w p)")
     (auto simp: step_def os_defs code_defs Let_def isLeader_def region_write0_def names_upd_proc
        dest!: bytes_close
        split: option.splits prod.splits if_splits)

lemma follower_step_no_memset:
  assumes "sharedType (procs w p) = Some SHARED_TYPE_FOLLOWER"
  shows "memsets p (step hdr p env w) = memsets p w"
  using assms
  by (cases "pc (procs w p)")
     (auto simp: step_def os_defs code_defs Let_def isLeader_def memsets_def
        split: option.splits prod.splits if_splits)

lemma toBeLeader_effect:
  assumes "toBeLeader hdr p env w = (Some b, w')"
  shows "if b
     then trace w' = trace w @ [(p, E_CreateFileMapping (shm w p) ERROR_SUCCESS),
            (p, E_MapViewOfFile True), (p, E_memset (SHARED_MEM_SIZE hdr))]
        \<and> (\<forall>r i. regions w' (shm w p) = Some r \<and> i < SHARED_MEM_SIZE hdr \<longrightarrow> bytes r i = 0)
     else trace w' = trace w @ [(p, E_CreateFileMapping (shm w p) ERROR_ALREADY_EXISTS),
            (p, E_MapViewOfFile True)]
        \<and> (\<forall>r'. regions w' (shm w p) = Some r' \<longrightarrow>
              (\<exists>r. regions w (shm w p) = Some r \<and> bytes r' = bytes r))"
  using assms
  by (auto simp: toBeLeader_def CreateFileMapping_def MapViewOfFile_def Let_def isLeader_def
        memset_sharedBuffer_def names_upd_proc region_open_def region_memset_def
      split: if_splits option.splits)

text \<open>
  C8.  In every world reachable by any interleaving: a process that has called the
  \<^verbatim>\<open>memset\<close> of line 98 has the leader's role and has called it exactly once; a step of a
  process with the follower's role calls no \<^verbatim>\<open>memset\<close> and leaves every byte other than
  offset 0 of every region as it was.  \<^verbatim>\<open>toBeLeader\<close> returning true has created the
  region, mapped it and then zeroed its first \<open>SHARED_MEM_SIZE\<close> bytes; returning false
  it has opened and mapped the region and left its bytes as they were.
\<close>

theorem C8_zero_init:
  assumes "w = run hdr sched world0"
  shows "(\<forall>p k. (p, E_memset k) \<in> set (trace w) \<longrightarrow>
            isLeader (procs w p) \<and> length (memsets p w) = 1)
     \<and> (\<forall>p env. sharedType (procs w p) = Some SHARED_TYPE_FOLLOWER \<longrightarrow>
            memsets p (step hdr p env w) = []
          \<and> (\<forall>n r'. regions (step hdr p env w) n = Some r' \<longrightarrow>
                (\<exists>r. regions w n = Some r \<and> (\<forall>i. i \<noteq> 0 \<longrightarrow> bytes r' i = bytes r i))))
     \<and> (\<forall>p env b v w'. toBeLeader hdr p env v = (Some b, w') \<longrightarrow>
            (if b
             then trace w' = trace v @ [(p, E_CreateFileMapping (shm v p) ERROR_SUCCESS),
                    (p, E_MapViewOfFile True), (p, E_memset (SHARED_MEM_SIZE hdr))]
                \<and> (\<forall>r i. regions w' (shm v p) = Some r \<and> i < SHARED_MEM_SIZE hdr
                      \<longrightarrow> bytes r i = 0)
             else trace w' = trace v @ [(p, E_CreateFileMapping (shm v p) ERROR_ALREADY_EXISTS),
                    (p, E_MapViewOfFile True)]
                \<and> (\<forall>r'. regions w' (shm v p) = Some r' \<longrightarrow>
                      (\<exists>r. regions v (shm v p) = Some r \<and> bytes r' = bytes r))))"
proof -
  have role: "\<And>p. role_ok (pc (procs w p)) (sharedType (procs w p))"
    using inv_run_parts(2) [of hdr sched] by (simp add: assms(1) inv_role_def)
  have once: "\<And>p. length (memsets p w) \<le> 1
      \<and> (memsets p w \<noteq> [] \<longrightarrow> isLeader (procs w p))"
    using inv_run_parts(7) [of hdr sched] by (simp add: assms(1) inv_once_def)
  have A: "isLeader (procs w p) \<and> length (memsets p w) = 1"
    if "(p, E_memset k) \<in> set (trace w)" for p k
  proof -
    from memset_event_memsets [OF that] have ne: "memsets p w \<noteq> []" .
    then have "length (memsets p w) \<noteq> 0" by simp
    with once [of p] ne show ?thesis by linarith
  qed
  have B: "memsets p (step hdr p env w) = []
          \<and> (\<forall>n r'. regions (step hdr p env w) n = Some r' \<longrightarrow>
                (\<exists>r. regions w n = Some r \<and> (\<forall>i. i \<noteq> 0 \<longrightarrow> bytes r' i = bytes r i)))"
    if f: "sharedType (procs w p) = Some SHARED_TYPE_FOLLOWER" for p env
  proof -
    have "memsets p w = []"
      using once [of p] f by (auto simp: isLeader_def)
    with follower_step_no_memset [OF f] follower_step_frame [OF f role [of p]]
    show ?thesis by simp
  qed
  show ?thesis
    using A B toBeLeader_effect [of hdr] by blast
qed

end
